theory Spec2Isabelle
  imports Complex_Main
begin

section \<open>Car Rush: the simulation core of \<open>useGameLoop\<close>\<close>

text \<open>
  The development embeds the game loop of the hook \<open>useGameLoop\<close> (road generation, coin
  spawning, collision and off-road tests, camera scrolling, score and milestone latch).
  JavaScript numbers are modelled as \<^typ>\<open>real\<close> (exact arithmetic, no rounding), the score
  as \<^typ>\<open>int\<close>. \<open>Math.random()\<close> is an input: a function \<open>rnd\<close> gives the value of the
  \<open>k\<close>-th call, and the state counts the calls made so far (\<open>draws\<close>). A \<open>TypeError\<close>
  raised by reading a property of \<open>undefined\<close> is the left summand of a sum type.
\<close>

subsection \<open>Constants\<close>

abbreviation CANVAS_WIDTH :: real where "CANVAS_WIDTH \<equiv> 800"
abbreviation CANVAS_HEIGHT :: real where "CANVAS_HEIGHT \<equiv> 600"
abbreviation CAR_WIDTH :: real where "CAR_WIDTH \<equiv> 64"
abbreviation CAR_HEIGHT :: real where "CAR_HEIGHT \<equiv> 32"
abbreviation COIN_SIZE :: real where "COIN_SIZE \<equiv> 24"
abbreviation ROAD_WIDTH :: real where "ROAD_WIDTH \<equiv> 400"
abbreviation TURN_SPEED :: real where "TURN_SPEED \<equiv> 0.08"
abbreviation MOVE_SPEED :: real where "MOVE_SPEED \<equiv> 6"
abbreviation SEGMENT_WIDTH :: real where "SEGMENT_WIDTH \<equiv> 60"
abbreviation ROAD_EXTEND_THRESHOLD :: real where "ROAD_EXTEND_THRESHOLD \<equiv> 200"
abbreviation MAX_SCORE :: int where "MAX_SCORE \<equiv> 20000"
abbreviation ACTION_SCORE_THRESHOLD :: int where "ACTION_SCORE_THRESHOLD \<equiv> 300"

subsection \<open>Data model\<close>

record point =
  pt_x :: real
  pt_y :: real

record Coin =
  coin_x :: real
  coin_y :: real
  collected :: bool

record Car =
  car_x :: real
  car_y :: real
  angle :: real
  speed :: real

datatype js_error = TypeError

text \<open>
  \<open>gameStateRef.current\<close> together with the React state of the hook (\<open>score\<close>, \<open>speed\<close>),
  the latch \<open>actionTriggeredRef\<close>, the flag \<open>isGameOver\<close> owned by \<open>GameScreen\<close>, and the
  number of \<open>Math.random()\<close> calls made so far. The pressed keys and \<open>isPaused\<close> are inputs
  of each tick.
\<close>

record game_state =
  car :: Car
  coins :: "Coin list"
  roadPath :: "point list"
  cameraOffsetY :: real
  score :: int
  speedShown :: real
  actionTriggered :: bool
  isGameOver :: bool
  draws :: nat

subsection \<open>Road generation\<close>

text \<open>
  \<open>k % 3 === 0 ? (Math.random() > 0.5 ? 1 : -1) : 0\<close>: a random number is drawn only for
  every third segment. The result is the direction and the new number of draws.
\<close>

definition roadDirection :: "(nat \<Rightarrow> real) \<Rightarrow> nat \<Rightarrow> nat \<Rightarrow> real \<times> nat" where
  "roadDirection rnd k n =
     (if k mod 3 = 0 then (if rnd n > 0.5 then 1 else - 1, Suc n) else (0, n))"

text \<open>\<open>Math.max(ROAD_WIDTH / 2, Math.min(CANVAS_WIDTH - ROAD_WIDTH / 2, currentX))\<close>\<close>

definition keepInBounds :: "real \<Rightarrow> real" where
  "keepInBounds currentX = max (ROAD_WIDTH / 2) (min (CANVAS_WIDTH - ROAD_WIDTH / 2) currentX)"

text \<open>One iteration of the loop of \<open>initializeRoad\<close>; the loop state is
  \<open>(currentX, currentY, roadPath, draws)\<close>.\<close>

fun initRoadStep ::
  "(nat \<Rightarrow> real) \<Rightarrow> nat \<Rightarrow> real \<times> real \<times> point list \<times> nat \<Rightarrow> real \<times> real \<times> point list \<times> nat"
where
  "initRoadStep rnd i (currentX, currentY, path, n) =
     (let currentY' = currentY - SEGMENT_WIDTH;
          (direction, n') = roadDirection rnd i n;
          currentX' = keepInBounds (currentX + direction * (SEGMENT_WIDTH * 0.8))
      in (currentX', currentY', path @ [\<lparr>pt_x = currentX', pt_y = currentY'\<rparr>], n'))"

definition initializeRoad :: "(nat \<Rightarrow> real) \<Rightarrow> game_state \<Rightarrow> game_state" where
  "initializeRoad rnd s =
     (let (currentX, currentY, path, n) =
            fold (initRoadStep rnd) [0..<15]
              (CANVAS_WIDTH / 2, CANVAS_HEIGHT,
               [\<lparr>pt_x = CANVAS_WIDTH / 2, pt_y = CANVAS_HEIGHT\<rparr>], draws s)
      in s\<lparr>roadPath := path, draws := n\<rparr>)"

text \<open>One iteration of the loop of \<open>initializeCoins\<close> over \<open>i = 1 .. length - 2\<close>; the loop
  state is \<open>(coins, draws)\<close>. Both indices read are in range.\<close>

fun initCoinStep ::
  "(nat \<Rightarrow> real) \<Rightarrow> point list \<Rightarrow> nat \<Rightarrow> Coin list \<times> nat \<Rightarrow> Coin list \<times> nat"
where
  "initCoinStep rnd path i (cs, n) =
     (if rnd n > 0.4 then
        (let point = path ! i;
             nextPoint = path ! (i + 1);
             offsetX = (rnd (Suc n) - 0.5) * 40
         in (cs @ [\<lparr>coin_x = (pt_x point + pt_x nextPoint) / 2 + offsetX,
                     coin_y = (pt_y point + pt_y nextPoint) / 2,
                     collected = False\<rparr>], Suc (Suc n)))
      else (cs, Suc n))"

definition initializeCoins :: "(nat \<Rightarrow> real) \<Rightarrow> game_state \<Rightarrow> game_state" where
  "initializeCoins rnd s =
     (let (cs, n) = fold (initCoinStep rnd (roadPath s)) [1..<length (roadPath s) - 1]
                      ([], draws s)
      in s\<lparr>coins := cs, draws := n\<rparr>)"

text \<open>One iteration of the loop of \<open>extendRoad\<close>; the loop state is
  \<open>(currentX, currentY, roadPath, coins, draws)\<close>. The coin is placed at the new point.\<close>

fun extendStep ::
  "(nat \<Rightarrow> real) \<Rightarrow> nat \<Rightarrow> nat \<Rightarrow> real \<times> real \<times> point list \<times> Coin list \<times> nat
     \<Rightarrow> real \<times> real \<times> point list \<times> Coin list \<times> nat"
where
  "extendStep rnd currentSegmentCount i (currentX, currentY, path, cs, n) =
     (let currentY' = currentY - SEGMENT_WIDTH;
          (direction, n1) = roadDirection rnd (currentSegmentCount + i) n;
          currentX' = keepInBounds (currentX + direction * (SEGMENT_WIDTH * 0.8));
          path' = path @ [\<lparr>pt_x = currentX', pt_y = currentY'\<rparr>]
      in if rnd n1 > 0.4 then
           (let offsetX = (rnd (Suc n1) - 0.5) * 40
            in (currentX', currentY', path',
                cs @ [\<lparr>coin_x = currentX' + offsetX, coin_y = currentY', collected = False\<rparr>],
                Suc (Suc n1)))
         else (currentX', currentY', path', cs, Suc n1))"

text \<open>\<open>extendRoad\<close> reads \<open>lastPoint.x\<close> of \<open>roadPath[length - 1]\<close>: on an empty path
  \<open>lastPoint\<close> is \<open>undefined\<close> and the read throws.\<close>

definition extendRoad :: "(nat \<Rightarrow> real) \<Rightarrow> game_state \<Rightarrow> js_error + game_state" where
  "extendRoad rnd s =
     (if roadPath s = [] then Inl TypeError
      else
        (let lastPoint = last (roadPath s);
             (currentX, currentY, path, cs, n) =
               fold (extendStep rnd (length (roadPath s))) [0..<5]
                 (pt_x lastPoint, pt_y lastPoint, roadPath s, coins s, draws s)
         in Inr (s\<lparr>roadPath := path, coins := cs, draws := n\<rparr>)))"

text \<open>Initialization followed by \<open>k\<close> extensions.\<close>

fun extendTimes :: "(nat \<Rightarrow> real) \<Rightarrow> nat \<Rightarrow> game_state \<Rightarrow> js_error + game_state" where
  "extendTimes rnd 0 s = Inr s"
| "extendTimes rnd (Suc k) s =
     (case extendRoad rnd s of Inl e \<Rightarrow> Inl e | Inr s' \<Rightarrow> extendTimes rnd k s')"

subsection \<open>Collision and off-road tests\<close>

text \<open>\<open>checkCollision(car, {x, y})\<close>: the distance of the centres against
  \<open>(Math.max(CAR_WIDTH, CAR_HEIGHT) + COIN_SIZE) / 2\<close>.\<close>

definition checkCollision :: "Car \<Rightarrow> real \<Rightarrow> real \<Rightarrow> bool" where
  "checkCollision c coinX coinY =
     (let dx = car_x c - coinX;
          dy = car_y c - coinY;
          distance = sqrt (dx * dx + dy * dy)
      in distance < (max CAR_WIDTH CAR_HEIGHT + COIN_SIZE) / 2)"

text \<open>A JavaScript division by zero yields \<open>NaN\<close> or an infinity, which is no real number:
  the checked division returns \<open>None\<close> there.\<close>

definition js_divide :: "real \<Rightarrow> real \<Rightarrow> real option" where
  "js_divide a b = (if b = 0 then None else Some (a / b))"

text \<open>\<open>let param = -1; if (lenSq !== 0) param = dot / lenSq;\<close>\<close>

definition segmentParam :: "real \<Rightarrow> real \<Rightarrow> real option" where
  "segmentParam dot lenSq = (if lenSq \<noteq> 0 then js_divide dot lenSq else Some (- 1))"

text \<open>The body of the loop of \<open>isCarOnRoad\<close>: the distance of the car to the segment from
  \<open>p1\<close> to \<open>p2\<close>; \<open>None\<close> when a division by zero was executed.\<close>

definition distanceToSegment :: "Car \<Rightarrow> point \<Rightarrow> point \<Rightarrow> real option" where
  "distanceToSegment c p1 p2 =
     (let A = car_x c - pt_x p1;
          B = car_y c - pt_y p1;
          C = pt_x p2 - pt_x p1;
          D = pt_y p2 - pt_y p1;
          dot = A * C + B * D;
          lenSq = C * C + D * D
      in case segmentParam dot lenSq of
           None \<Rightarrow> None
         | Some param \<Rightarrow>
             (let (xx, yy) =
                    (if param < 0 then (pt_x p1, pt_y p1)
                     else if param > 1 then (pt_x p2, pt_y p2)
                     else (pt_x p1 + param * C, pt_y p1 + param * D));
                  dx = car_x c - xx;
                  dy = car_y c - yy
              in Some (sqrt (dx * dx + dy * dy))))"

text \<open>\<open>minDistance\<close> starts as \<open>Infinity\<close> and is lowered by \<open>Math.min\<close>; \<open>NotANumber\<close>
  stands for the \<open>NaN\<close> that a division by zero would leave there.\<close>

datatype distance = Infinity | Dist real | NotANumber

fun js_min :: "distance \<Rightarrow> real option \<Rightarrow> distance" where
  "js_min NotANumber d = NotANumber"
| "js_min m None = NotANumber"
| "js_min Infinity (Some d) = Dist d"
| "js_min (Dist m) (Some d) = Dist (min m d)"

text \<open>The loop over \<open>i = 0 .. length - 2\<close> with \<open>p1 = roadPath[i]\<close>, \<open>p2 = roadPath[i + 1]\<close>.\<close>

fun minDistance :: "Car \<Rightarrow> point list \<Rightarrow> distance \<Rightarrow> distance" where
  "minDistance c (p1 # p2 # ps) m =
     minDistance c (p2 # ps) (js_min m (distanceToSegment c p1 p2))"
| "minDistance c ps m = m"

text \<open>\<open>return minDistance < ROAD_WIDTH / 2 - 20\<close>; a comparison with \<open>NaN\<close> is false.\<close>

definition isCarOnRoad :: "Car \<Rightarrow> point list \<Rightarrow> bool" where
  "isCarOnRoad c path =
     (case minDistance c path Infinity of
        Infinity \<Rightarrow> False
      | NotANumber \<Rightarrow> False
      | Dist m \<Rightarrow> m < ROAD_WIDTH / 2 - 20)"

subsection \<open>Score, milestone latch and coin pickup\<close>

text \<open>What the updaters passed to \<open>setScore\<close> read and write during one tick: the score, the
  latch \<open>actionTriggeredRef\<close>, the number of callbacks handed to \<open>setTimeout\<close>, and whether
  \<open>setIsGameOver(true)\<close> was called for the maximal score. Each callback handed to
  \<open>setTimeout\<close> calls \<open>onScoreThresholdReached\<close> once after the tick (\<open>GameScreen\<close> always
  passes this handler).\<close>

record score_state =
  sc_score :: int
  sc_triggered :: bool
  sc_callbacks :: nat
  sc_maxReached :: bool

definition scoreUpdater :: "score_state \<Rightarrow> score_state" where
  "scoreUpdater u =
     (let newScore = sc_score u + 10;
          u1 = (if newScore \<ge> ACTION_SCORE_THRESHOLD \<and> \<not> sc_triggered u
                then u\<lparr>sc_triggered := True, sc_callbacks := Suc (sc_callbacks u)\<rparr>
                else u);
          u2 = (if newScore \<ge> MAX_SCORE then u1\<lparr>sc_maxReached := True\<rparr> else u1)
      in u2\<lparr>sc_score := newScore\<rparr>)"

text \<open>The callback of \<open>state.coins.forEach\<close>, without the drawing.\<close>

definition coinStep :: "Car \<Rightarrow> real \<Rightarrow> Coin \<Rightarrow> score_state \<Rightarrow> Coin \<times> score_state" where
  "coinStep c cam coin u =
     (if collected coin then (coin, u)
      else
        (let coinScreenY = coin_y coin + cam
         in if coinScreenY < - 50 \<or> coinScreenY > CANVAS_HEIGHT + 50 then (coin, u)
            else if checkCollision c (coin_x coin) coinScreenY
                 then (coin\<lparr>collected := True\<rparr>, scoreUpdater u)
                 else (coin, u)))"

fun coinsForEach :: "Car \<Rightarrow> real \<Rightarrow> Coin list \<Rightarrow> score_state \<Rightarrow> Coin list \<times> score_state" where
  "coinsForEach c cam [] u = ([], u)"
| "coinsForEach c cam (coin # cs) u =
     (let (coin', u') = coinStep c cam coin u;
          (cs', u'') = coinsForEach c cam cs u'
      in (coin' # cs', u''))"

subsection \<open>The tick\<close>

text \<open>The calls a tick makes to its collaborators: \<open>setIsGameOver(true)\<close> from the off-road
  check, from the off-screen check and from the maximal score, and the number of
  \<open>onScoreThresholdReached\<close> callbacks scheduled.\<close>

record tick_events =
  offRoad :: bool
  offScreen :: bool
  maxScore :: bool
  callbacks :: nat

definition noEvents :: tick_events where
  "noEvents = \<lparr>offRoad = False, offScreen = False, maxScore = False, callbacks = 0\<rparr>"

text \<open>The branch \<open>if (isMoving)\<close>: the car advances, the road is extended when its top comes
  near the frame, and the camera follows the car above the middle of the canvas.\<close>

definition moveCar :: "(nat \<Rightarrow> real) \<Rightarrow> game_state \<Rightarrow> js_error + game_state" where
  "moveCar rnd s =
     (let newX = car_x (car s) + cos (angle (car s)) * MOVE_SPEED;
          newY = car_y (car s) + sin (angle (car s)) * MOVE_SPEED;
          s1 = s\<lparr>car := (car s)\<lparr>car_x := newX, car_y := newY, speed := MOVE_SPEED\<rparr>,
                 speedShown := MOVE_SPEED\<rparr>
      in if roadPath s1 = [] then Inl TypeError
         else
           (let topOfRoad = pt_y (last (roadPath s1)) + cameraOffsetY s1
            in case (if topOfRoad > - ROAD_EXTEND_THRESHOLD then extendRoad rnd s1 else Inr s1) of
                 Inl e \<Rightarrow> Inl e
               | Inr s2 \<Rightarrow>
                   Inr (if car_y (car s2) < CANVAS_HEIGHT / 2
                        then s2\<lparr>cameraOffsetY :=
                                  cameraOffsetY s2 + (CANVAS_HEIGHT / 2 - car_y (car s2)),
                                car := (car s2)\<lparr>car_y := CANVAS_HEIGHT / 2\<rparr>\<rparr>
                        else s2)))"

text \<open>The keys \<open>ArrowLeft\<close> and \<open>ArrowRight\<close> turn the car.\<close>

definition turnCar :: "string set \<Rightarrow> game_state \<Rightarrow> game_state" where
  "turnCar keysPressed s =
     (let a1 = (if ''ArrowLeft'' \<in> keysPressed then angle (car s) - TURN_SPEED
                else angle (car s));
          a2 = (if ''ArrowRight'' \<in> keysPressed then a1 + TURN_SPEED else a1)
      in s\<lparr>car := (car s)\<lparr>angle := a2\<rparr>\<rparr>)"

text \<open>The branch \<open>else\<close> of \<open>if (isMoving)\<close>.\<close>

definition stopCar :: "game_state \<Rightarrow> game_state" where
  "stopCar s = s\<lparr>car := (car s)\<lparr>speed := 0\<rparr>, speedShown := 0\<rparr>"

definition driveCar :: "(nat \<Rightarrow> real) \<Rightarrow> string set \<Rightarrow> game_state \<Rightarrow> js_error + game_state" where
  "driveCar rnd keysPressed s =
     (let s1 = turnCar keysPressed s;
          isMoving = ('' '' \<in> keysPressed)
      in if isMoving then moveCar rnd s1 else Inr (stopCar s1))"

text \<open>The rest of the tick: the off-road check (made only while moving), the off-screen check
  and the loop over the coins.\<close>

definition finishTick :: "bool \<Rightarrow> game_state \<Rightarrow> game_state \<times> tick_events" where
  "finishTick isMoving s =
     (let offR = (isMoving \<and> \<not> isCarOnRoad (car s) (roadPath s));
          offS = (car_x (car s) < 0 \<or> car_x (car s) > CANVAS_WIDTH);
          (cs, u) = coinsForEach (car s) (cameraOffsetY s) (coins s)
                      \<lparr>sc_score = score s, sc_triggered = actionTriggered s,
                       sc_callbacks = 0, sc_maxReached = False\<rparr>
      in (s\<lparr>coins := cs, score := sc_score u, actionTriggered := sc_triggered u,
            isGameOver := (offR \<or> offS \<or> sc_maxReached u)\<rparr>,
          \<lparr>offRoad = offR, offScreen = offS, maxScore = sc_maxReached u,
           callbacks = sc_callbacks u\<rparr>))"

text \<open>One call of \<open>gameLoop\<close>. Between the checks and the coins, \<open>drawRoad\<close> reads
  \<open>roadPath[0].x\<close> and throws on an empty path. The flag \<open>isGameOver\<close> set by a tick is
  seen by the next tick.\<close>

definition gameLoop ::
  "(nat \<Rightarrow> real) \<Rightarrow> bool \<Rightarrow> string set \<Rightarrow> game_state \<Rightarrow> js_error + game_state \<times> tick_events"
where
  "gameLoop rnd isPaused keysPressed s =
     (if isPaused \<or> isGameOver s then Inr (s, noEvents)
      else
        (case driveCar rnd keysPressed s of
           Inl e \<Rightarrow> Inl e
         | Inr s2 \<Rightarrow>
             if roadPath s2 = [] then Inl TypeError
             else Inr (finishTick ('' '' \<in> keysPressed) s2)))"

subsection \<open>Reset and runs\<close>

definition resetGame :: "(nat \<Rightarrow> real) \<Rightarrow> game_state \<Rightarrow> game_state" where
  "resetGame rnd s =
     initializeCoins rnd (initializeRoad rnd
       (s\<lparr>score := 0, speedShown := 0, actionTriggered := False,
          car := \<lparr>car_x = CANVAS_WIDTH / 2, car_y = CANVAS_HEIGHT - 100,
                  angle = - pi / 2, speed = 0\<rparr>,
          coins := [], roadPath := [], cameraOffsetY := 0\<rparr>))"

text \<open>\<open>GameScreen.handleReset\<close>: clears \<open>isGameOver\<close> and calls \<open>resetGame\<close>. The state after
  mounting the hook is of this form too.\<close>

definition handleReset :: "(nat \<Rightarrow> real) \<Rightarrow> game_state \<Rightarrow> game_state" where
  "handleReset rnd s = resetGame rnd (s\<lparr>isGameOver := False\<rparr>)"

text \<open>A run: one tick per input \<open>(isPaused, keysPressed)\<close>. The result is the last state and,
  for every tick, the state after it and its events.\<close>

fun run ::
  "(nat \<Rightarrow> real) \<Rightarrow> (bool \<times> string set) list \<Rightarrow> game_state
     \<Rightarrow> js_error + game_state \<times> (game_state \<times> tick_events) list"
where
  "run rnd [] s = Inr (s, [])"
| "run rnd ((isPaused, keysPressed) # inputs) s =
     (case gameLoop rnd isPaused keysPressed s of
        Inl e \<Rightarrow> Inl e
      | Inr (s', ev) \<Rightarrow>
          (case run rnd inputs s' of
             Inl e \<Rightarrow> Inl e
           | Inr (sf, tr) \<Rightarrow> Inr (sf, (s', ev) # tr)))"

text \<open>The value of \<open>gameStateRef\<close> and of the React state when the hook is mounted,
  before the effect that calls \<open>initializeRoad\<close> and \<open>initializeCoins\<close>.\<close>

definition initialState :: game_state where
  "initialState =
     \<lparr>car = \<lparr>car_x = CANVAS_WIDTH / 2, car_y = CANVAS_HEIGHT - 100, angle = - pi / 2, speed = 0\<rparr>,
      coins = [], roadPath = [], cameraOffsetY = 0, score = 0, speedShown = 0,
      actionTriggered = False, isGameOver = False, draws = 0\<rparr>"

subsection \<open>Notions used in the statements and loop invariants\<close>

text \<open>A point that leaves room for half the road on both sides:
  \<open>ROAD_WIDTH / 2 \<le> x \<le> CANVAS_WIDTH - ROAD_WIDTH / 2\<close>.\<close>

definition inRange :: "point \<Rightarrow> bool" where
  "inRange p = (200 \<le> pt_x p \<and> pt_x p \<le> 600)"

text \<open>Invariants of the loops of \<open>initializeRoad\<close> and \<open>extendRoad\<close>: \<open>currentX\<close> and \<open>currentY\<close>
  are the coordinates of the last point, every new point is in range, and the coins
  appended are uncollected.\<close>

definition roadInv :: "nat \<Rightarrow> real \<Rightarrow> real \<times> real \<times> point list \<times> nat \<Rightarrow> bool" where
  "roadInv len y0 t = (case t of (cx, cy, path, n) \<Rightarrow>
      path \<noteq> [] \<and> length path = len \<and> list_all inRange path
      \<and> cx = pt_x (last path) \<and> cy = pt_y (last path) \<and> cy = y0)"

definition extInv ::
  "point list \<Rightarrow> Coin list \<Rightarrow> nat \<Rightarrow> real \<Rightarrow> real \<times> real \<times> point list \<times> Coin list \<times> nat \<Rightarrow> bool" where
  "extInv path0 cs0 k y0 t = (case t of (cx, cy, path, cs, n) \<Rightarrow>
      path \<noteq> [] \<and> cx = pt_x (last path) \<and> cy = pt_y (last path) \<and> cy = y0
      \<and> (\<exists>new. path = path0 @ new \<and> length new = k \<and> list_all inRange new)
      \<and> (\<exists>newc. cs = cs0 @ newc \<and> list_all (\<lambda>c. \<not> collected c) newc))"

text \<open>A coin whose screen y, under the camera offset \<open>cam\<close>, is outside \<open>[-50, 650]\<close>: the
  coin loop returns for it before the collision test.\<close>

definition culled :: "real \<Rightarrow> Coin \<Rightarrow> bool" where
  "culled cam coin = (coin_y coin + cam < - 50 \<or> coin_y coin + cam > CANVAS_HEIGHT + 50)"

text \<open>The latch agrees with the score; the number of collected coins; and the screen y of the
  last point of the path, which \<open>gameLoop\<close> compares with \<open>-ROAD_EXTEND_THRESHOLD\<close>.\<close>

definition latchOk :: "score_state \<Rightarrow> bool" where
  "latchOk u = (sc_triggered u = (300 \<le> sc_score u))"

definition nCollected :: "Coin list \<Rightarrow> int" where
  "nCollected cs = int (length (filter collected cs))"

definition topOfRoad :: "game_state \<Rightarrow> real" where
  "topOfRoad s = pt_y (last (roadPath s)) + cameraOffsetY s"

text \<open>A coin that the loop tests and finds in contact with the car: its screen y is within
  \<open>[-50, 650]\<close> and \<open>checkCollision\<close> holds at its screen position. What one pass of the loop
  makes of a coin, and the number of coins of a list that a pass newly collects.\<close>

definition touches :: "Car \<Rightarrow> real \<Rightarrow> Coin \<Rightarrow> bool" where
  "touches c cam coin =
     (\<not> culled cam coin \<and> checkCollision c (coin_x coin) (coin_y coin + cam))"

definition pickUp :: "Car \<Rightarrow> real \<Rightarrow> Coin \<Rightarrow> Coin" where
  "pickUp c cam coin =
     (if \<not> collected coin \<and> touches c cam coin then coin\<lparr>collected := True\<rparr> else coin)"

definition freshHits :: "Car \<Rightarrow> real \<Rightarrow> Coin list \<Rightarrow> nat" where
  "freshHits c cam cs = length (filter (\<lambda>coin. \<not> collected coin \<and> touches c cam coin) cs)"

text \<open>What holds of every state a run reaches: the path is not empty, the car is at or below
  the middle of the canvas, the top of the road is above the frame, the score counts the
  collected coins, and the latch is set exactly from the threshold on.\<close>

definition gameInv :: "game_state \<Rightarrow> bool" where
  "gameInv s = (roadPath s \<noteq> [] \<and> 300 \<le> car_y (car s) \<and> topOfRoad s \<le> - 194
      \<and> score s = 10 * nCollected (coins s) \<and> actionTriggered s = (300 \<le> score s))"

text \<open>A state just below the milestone, with two uncollected coins and one collected coin
  at the position of the car.\<close>

definition nearMilestone :: game_state where
  "nearMilestone =
     \<lparr>car = \<lparr>car_x = 400, car_y = 500, angle = - pi / 2, speed = 0\<rparr>,
      coins = [\<lparr>coin_x = 400, coin_y = 500, collected = False\<rparr>,
               \<lparr>coin_x = 400, coin_y = 500, collected = False\<rparr>,
               \<lparr>coin_x = 400, coin_y = 500, collected = True\<rparr>],
      roadPath = [\<lparr>pt_x = 400, pt_y = 600\<rparr>, \<lparr>pt_x = 400, pt_y = 540\<rparr>],
      cameraOffsetY = 0, score = 290, speedShown = 0,
      actionTriggered = False, isGameOver = False, draws = 0\<rparr>"






subsection \<open>The off-path test in the words of the specification\<close>

text \<open>
  The distance to a segment by the clamped projection: project the car onto the line through
  \<open>p1\<close> and \<open>p2\<close>, clamp the parameter to \<open>[0, 1]\<close>, and measure the distance to the clamped
  point. (For coincident points the quotient is \<open>0\<close> in HOL, so that the clamped point is
  \<open>p1\<close>.) The minimum is taken over all pairs of consecutive points, and the vehicle is
  off the path if the minimum exceeds \<open>ROAD_WIDTH / 2 - 20\<close>. These three definitions follow
  the specification, not the code.
\<close>

definition spec_segmentDistance :: "Car \<Rightarrow> point \<Rightarrow> point \<Rightarrow> real" where
  "spec_segmentDistance c p1 p2 =
     (let vx = pt_x p2 - pt_x p1;
          vy = pt_y p2 - pt_y p1;
          t = ((car_x c - pt_x p1) * vx + (car_y c - pt_y p1) * vy) / (vx * vx + vy * vy);
          tc = max 0 (min 1 t);
          qx = pt_x p1 + tc * vx;
          qy = pt_y p1 + tc * vy
      in sqrt ((car_x c - qx) * (car_x c - qx) + (car_y c - qy) * (car_y c - qy)))"

definition spec_minDistance :: "Car \<Rightarrow> point list \<Rightarrow> real" where
  "spec_minDistance c path =
     Min (set (map (\<lambda>(p1, p2). spec_segmentDistance c p1 p2) (zip path (tl path))))"

definition spec_offPath :: "Car \<Rightarrow> point list \<Rightarrow> bool" where
  "spec_offPath c path = (spec_minDistance c path > ROAD_WIDTH / 2 - 20)"

subsection \<open>Concrete states\<close>

text \<open>A car at distance 180 from a straight piece of road.\<close>

definition borderCar :: Car where
  "borderCar = \<lparr>car_x = 580, car_y = 570, angle = 0, speed = 6\<rparr>"

definition straightRoad :: "point list" where
  "straightRoad = [\<lparr>pt_x = 400, pt_y = 600\<rparr>, \<lparr>pt_x = 400, pt_y = 540\<rparr>]"

text \<open>A road of one long segment whose top is far above the frame, with a car next to it,
  a car beyond the right edge of the canvas, and a car that sits on a coin below the frame.\<close>

definition longRoad :: "point list" where
  "longRoad = [\<lparr>pt_x = 400, pt_y = 600\<rparr>, \<lparr>pt_x = 400, pt_y = - 400\<rparr>]"

definition roadsideState :: game_state where
  "roadsideState =
     \<lparr>car = \<lparr>car_x = 580, car_y = 570, angle = 0, speed = 0\<rparr>,
      coins = [], roadPath = longRoad, cameraOffsetY = 0, score = 0, speedShown = 0,
      actionTriggered = False, isGameOver = False, draws = 0\<rparr>"

definition offScreenState :: game_state where
  "offScreenState =
     \<lparr>car = \<lparr>car_x = 801, car_y = 570, angle = 0, speed = 0\<rparr>,
      coins = [], roadPath = longRoad, cameraOffsetY = 0, score = 0, speedShown = 0,
      actionTriggered = False, isGameOver = False, draws = 0\<rparr>"

definition belowFrameState :: game_state where
  "belowFrameState =
     \<lparr>car = \<lparr>car_x = 400, car_y = 700, angle = pi / 2, speed = 0\<rparr>,
      coins = [\<lparr>coin_x = 400, coin_y = 700, collected = False\<rparr>],
      roadPath = longRoad, cameraOffsetY = 0, score = 0, speedShown = 0,
      actionTriggered = False, isGameOver = False, draws = 0\<rparr>"


text \<open>The initial road when every call of \<open>Math.random()\<close> returns \<open>0\<close>, and the states of a
  car that has driven straight up this road for \<open>m\<close> ticks: it climbs by 6 per tick to the
  middle of the canvas, from where on the camera moves instead.\<close>

definition leftRoad :: "point list" where
  "leftRoad =
     [\<lparr>pt_x = 400, pt_y = 600\<rparr>, \<lparr>pt_x = 352, pt_y = 540\<rparr>, \<lparr>pt_x = 352, pt_y = 480\<rparr>,
      \<lparr>pt_x = 352, pt_y = 420\<rparr>, \<lparr>pt_x = 304, pt_y = 360\<rparr>, \<lparr>pt_x = 304, pt_y = 300\<rparr>,
      \<lparr>pt_x = 304, pt_y = 240\<rparr>, \<lparr>pt_x = 256, pt_y = 180\<rparr>, \<lparr>pt_x = 256, pt_y = 120\<rparr>,
      \<lparr>pt_x = 256, pt_y = 60\<rparr>, \<lparr>pt_x = 208, pt_y = 0\<rparr>, \<lparr>pt_x = 208, pt_y = - 60\<rparr>,
      \<lparr>pt_x = 208, pt_y = - 120\<rparr>, \<lparr>pt_x = 200, pt_y = - 180\<rparr>,
      \<lparr>pt_x = 200, pt_y = - 240\<rparr>, \<lparr>pt_x = 200, pt_y = - 300\<rparr>]"

definition drivingUp :: "nat \<Rightarrow> game_state \<Rightarrow> bool" where
  "drivingUp m s =
     (car_x (car s) = 400 \<and> car_y (car s) = max 300 (500 - 6 * real m)
      \<and> angle (car s) = - pi / 2
      \<and> cameraOffsetY s = max 0 (6 * real m - 200)
      \<and> coins s = [] \<and> roadPath s = leftRoad \<and> \<not> isGameOver s)"


text \<open>Random numbers for which a reset spawns exactly one coin, at \<open>(368, 510)\<close>, within
  reach of the car at \<open>(400, 500)\<close>: the draws 5 and 6 (the first spawn decision and its
  offset) are \<open>9/10\<close>, all others \<open>0\<close>.\<close>

definition oneCoinRnd :: "nat \<Rightarrow> real" where
  "oneCoinRnd n = (if n = 5 \<or> n = 6 then 9 / 10 else 0)"

section \<open>Properties\<close>

subsection \<open>Road generation\<close>

lemma keepInBounds_range: "200 \<le> keepInBounds x \<and> keepInBounds x \<le> 600"
  by (simp add: keepInBounds_def max_def min_def)

lemma initRoadStep_inv:
  "roadInv len y0 t \<Longrightarrow> roadInv (Suc len) (y0 - 60) (initRoadStep rnd i t)"
  by (cases t) (simp add: roadInv_def Let_def split_beta inRange_def keepInBounds_range)

lemma fold_initRoadStep_inv:
  "roadInv len y0 t \<Longrightarrow>
   roadInv (len + length is) (y0 - 60 * real (length is)) (fold (initRoadStep rnd) is t)"
proof (induction "is" arbitrary: len y0 t)
  case Nil
  then show ?case by simp
next
  case (Cons i "is")
  from initRoadStep_inv [OF Cons.prems, of rnd i]
  have "roadInv (Suc len + length is) (y0 - 60 - 60 * real (length is))
          (fold (initRoadStep rnd) is (initRoadStep rnd i t))"
    by (rule Cons.IH)
  then show ?case by (simp add: algebra_simps)
qed

lemma initializeRoad_props:
  "length (roadPath (initializeRoad rnd s)) = 16 \<and>
   list_all inRange (roadPath (initializeRoad rnd s)) \<and>
   pt_y (last (roadPath (initializeRoad rnd s))) = - 300"
proof -
  have "roadInv 1 600 (400, 600, [\<lparr>pt_x = 400, pt_y = 600\<rparr>], draws s)"
    by (simp add: roadInv_def inRange_def)
  from fold_initRoadStep_inv [OF this, of "[0..<15]" rnd]
  show ?thesis
    by (simp add: initializeRoad_def roadInv_def split_beta Let_def)
qed

lemma extendStep_inv:
  "extInv path0 cs0 k y0 t \<Longrightarrow> extInv path0 cs0 (Suc k) (y0 - 60) (extendStep rnd cnt i t)"
  by (cases t) (auto simp add: extInv_def Let_def split_beta inRange_def keepInBounds_range)

lemma fold_extendStep_inv:
  "extInv path0 cs0 k y0 t \<Longrightarrow>
   extInv path0 cs0 (k + length is) (y0 - 60 * real (length is)) (fold (extendStep rnd cnt) is t)"
proof (induction "is" arbitrary: k y0 t)
  case Nil
  then show ?case by simp
next
  case (Cons i "is")
  from extendStep_inv [OF Cons.prems, of rnd cnt i]
  have "extInv path0 cs0 (Suc k + length is) (y0 - 60 - 60 * real (length is))
          (fold (extendStep rnd cnt) is (extendStep rnd cnt i t))"
    by (rule Cons.IH)
  then show ?case by (simp add: algebra_simps)
qed

lemma extendRoad_empty: "roadPath s = [] \<Longrightarrow> extendRoad rnd s = Inl TypeError"
  by (simp add: extendRoad_def)

lemma extendRoad_props:
  assumes "roadPath s \<noteq> []"
  shows "\<exists>s' new newc. extendRoad rnd s = Inr s'
           \<and> roadPath s' = roadPath s @ new \<and> length new = 5 \<and> list_all inRange new
           \<and> pt_y (last (roadPath s')) = pt_y (last (roadPath s)) - 300
           \<and> coins s' = coins s @ newc \<and> list_all (\<lambda>c. \<not> collected c) newc
           \<and> car s' = car s \<and> cameraOffsetY s' = cameraOffsetY s \<and> score s' = score s
           \<and> speedShown s' = speedShown s
           \<and> actionTriggered s' = actionTriggered s \<and> isGameOver s' = isGameOver s"
proof -
  let ?t0 = "(pt_x (last (roadPath s)), pt_y (last (roadPath s)), roadPath s, coins s, draws s)"
  have "extInv (roadPath s) (coins s) 0 (pt_y (last (roadPath s))) ?t0"
    using assms by (simp add: extInv_def)
  from fold_extendStep_inv [OF this, of "[0..<5]" rnd "length (roadPath s)"]
  show ?thesis using assms
    by (auto simp add: extendRoad_def extInv_def split_beta Let_def)
qed

subsection \<open>The loop over the coins\<close>

lemma scoreUpdater_score: "sc_score (scoreUpdater u) = sc_score u + 10"
  by (simp add: scoreUpdater_def Let_def)

lemma scoreUpdater_latch: "latchOk u \<Longrightarrow> latchOk (scoreUpdater u)"
  by (auto simp add: scoreUpdater_def Let_def latchOk_def)

lemma scoreUpdater_callbacks:
  "latchOk u \<Longrightarrow> sc_callbacks (scoreUpdater u) =
     sc_callbacks u + (if sc_score u < 300 \<and> 300 \<le> sc_score u + 10 then 1 else 0)"
  by (auto simp add: scoreUpdater_def Let_def latchOk_def)

lemma scoreUpdater_max:
  "sc_maxReached (scoreUpdater u) = (sc_maxReached u \<or> 20000 \<le> sc_score u + 10)"
  by (auto simp add: scoreUpdater_def Let_def)

lemma coinStep_cases:
  "coinStep c cam coin u = (coin, u) \<or>
   (\<not> collected coin \<and> \<not> culled cam coin \<and> checkCollision c (coin_x coin) (coin_y coin + cam)
     \<and> coinStep c cam coin u = (coin\<lparr>collected := True\<rparr>, scoreUpdater u))"
  by (simp add: coinStep_def culled_def Let_def)

lemma coinStep_skip: "collected coin \<or> culled cam coin \<Longrightarrow> coinStep c cam coin u = (coin, u)"
  by (auto simp add: coinStep_def culled_def Let_def)

lemma coinsForEach_length: "length (fst (coinsForEach c cam cs u)) = length cs"
  by (induction cs arbitrary: u) (simp_all add: split_beta Let_def)

lemma coinsForEach_score:
  "sc_score (snd (coinsForEach c cam cs u)) =
     sc_score u + 10 * (nCollected (fst (coinsForEach c cam cs u)) - nCollected cs)"
proof (induction cs arbitrary: u)
  case Nil
  then show ?case by simp
next
  case (Cons coin cs)
  from coinStep_cases [of c cam coin u] show ?case
    by (auto simp add: split_beta Let_def Cons.IH nCollected_def scoreUpdater_score)
qed

lemma coinsForEach_coin:
  "i < length cs \<Longrightarrow>
   coin_x (fst (coinsForEach c cam cs u) ! i) = coin_x (cs ! i) \<and>
   coin_y (fst (coinsForEach c cam cs u) ! i) = coin_y (cs ! i) \<and>
   (collected (cs ! i) \<longrightarrow> fst (coinsForEach c cam cs u) ! i = cs ! i) \<and>
   (culled cam (cs ! i) \<longrightarrow> fst (coinsForEach c cam cs u) ! i = cs ! i)"
proof (induction cs arbitrary: u i)
  case Nil
  then show ?case by simp
next
  case (Cons coin cs)
  show ?case
  proof (cases i)
    case 0
    from coinStep_cases [of c cam coin u] show ?thesis
      by (auto simp add: 0 split_beta Let_def)
  next
    case (Suc j)
    with Cons.prems have "j < length cs" by simp
    from Cons.IH [OF this] show ?thesis
      by (simp add: Suc split_beta Let_def)
  qed
qed

lemma coinsForEach_mono:
  "nCollected cs \<le> nCollected (fst (coinsForEach c cam cs u))"
proof (induction cs arbitrary: u)
  case Nil
  then show ?case by simp
next
  case (Cons coin cs)
  from coinStep_cases [of c cam coin u] Cons.IH [of "snd (coinStep c cam coin u)"]
  show ?case
    by (auto simp add: split_beta Let_def nCollected_def)
qed

lemma coinsForEach_latch:
  "latchOk u \<Longrightarrow> latchOk (snd (coinsForEach c cam cs u))"
proof (induction cs arbitrary: u)
  case Nil
  then show ?case by simp
next
  case (Cons coin cs)
  from coinStep_cases [of c cam coin u] Cons.prems
  have "latchOk (snd (coinStep c cam coin u))"
    by (auto simp add: scoreUpdater_latch)
  from Cons.IH [OF this] show ?case
    by (simp add: split_beta Let_def)
qed

lemma coinsForEach_score_mono:
  "sc_score u \<le> sc_score (snd (coinsForEach c cam cs u))"
  using coinsForEach_mono [of cs c cam u] by (simp add: coinsForEach_score)

lemma coinsForEach_callbacks:
  "latchOk u \<Longrightarrow>
   sc_callbacks (snd (coinsForEach c cam cs u)) =
     sc_callbacks u +
       (if sc_score u < 300 \<and> 300 \<le> sc_score (snd (coinsForEach c cam cs u)) then 1 else 0)"
proof (induction cs arbitrary: u)
  case Nil
  then show ?case by simp
next
  case (Cons coin cs)
  let ?u1 = "snd (coinStep c cam coin u)"
  have l1: "latchOk ?u1"
    using coinStep_cases [of c cam coin u] Cons.prems by (auto simp add: scoreUpdater_latch)
  have m: "sc_score ?u1 \<le> sc_score (snd (coinsForEach c cam cs ?u1))"
    by (rule coinsForEach_score_mono)
  from coinStep_cases [of c cam coin u] show ?case
  proof
    assume "coinStep c cam coin u = (coin, u)"
    then show ?thesis using Cons.IH [OF Cons.prems] by (simp add: split_beta Let_def)
  next
    assume a: "\<not> collected coin \<and> \<not> culled cam coin \<and>
      checkCollision c (coin_x coin) (coin_y coin + cam) \<and>
      coinStep c cam coin u = (coin\<lparr>collected := True\<rparr>, scoreUpdater u)"
    then have u1: "?u1 = scoreUpdater u" by simp
    from Cons.IH [OF l1] m show ?thesis
      using scoreUpdater_callbacks [OF Cons.prems]
      by (auto simp add: split_beta Let_def u1 scoreUpdater_score)
  qed
qed

lemma coinsForEach_max:
  "sc_maxReached (snd (coinsForEach c cam cs u)) =
     (sc_maxReached u \<or>
      (sc_score u < sc_score (snd (coinsForEach c cam cs u)) \<and>
       20000 \<le> sc_score (snd (coinsForEach c cam cs u))))"
proof (induction cs arbitrary: u)
  case Nil
  then show ?case by simp
next
  case (Cons coin cs)
  let ?u1 = "snd (coinStep c cam coin u)"
  have m: "sc_score ?u1 \<le> sc_score (snd (coinsForEach c cam cs ?u1))"
    by (rule coinsForEach_score_mono)
  from coinStep_cases [of c cam coin u] m show ?case
    by (auto simp add: split_beta Let_def Cons.IH scoreUpdater_max scoreUpdater_score)
qed

subsection \<open>Movement\<close>

lemma turnCar_simps:
  "roadPath (turnCar k s) = roadPath s" "coins (turnCar k s) = coins s"
  "cameraOffsetY (turnCar k s) = cameraOffsetY s" "score (turnCar k s) = score s"
  "actionTriggered (turnCar k s) = actionTriggered s" "isGameOver (turnCar k s) = isGameOver s"
  "car_x (car (turnCar k s)) = car_x (car s)" "car_y (car (turnCar k s)) = car_y (car s)"
  by (simp_all add: turnCar_def Let_def)

lemma stopCar_simps:
  "roadPath (stopCar s) = roadPath s" "coins (stopCar s) = coins s"
  "cameraOffsetY (stopCar s) = cameraOffsetY s" "score (stopCar s) = score s"
  "actionTriggered (stopCar s) = actionTriggered s" "isGameOver (stopCar s) = isGameOver s"
  "car_x (car (stopCar s)) = car_x (car s)" "car_y (car (stopCar s)) = car_y (car s)"
  by (simp_all add: stopCar_def)

lemma moveCar_props:
  assumes "roadPath s \<noteq> []"
  shows "\<exists>s2 new newc. moveCar rnd s = Inr s2
           \<and> roadPath s2 = roadPath s @ new \<and> list_all inRange new
           \<and> coins s2 = coins s @ newc \<and> list_all (\<lambda>c. \<not> collected c) newc
           \<and> score s2 = score s \<and> actionTriggered s2 = actionTriggered s
           \<and> isGameOver s2 = isGameOver s
           \<and> car_x (car s2) = car_x (car s) + cos (angle (car s)) * 6"
proof -
  let ?s1 = "s\<lparr>car := (car s)\<lparr>car_x := car_x (car s) + cos (angle (car s)) * 6,
                              car_y := car_y (car s) + sin (angle (car s)) * 6, speed := 6\<rparr>,
               speedShown := 6\<rparr>"
  have ne: "roadPath ?s1 \<noteq> []" using assms by simp
  show ?thesis
  proof (cases "pt_y (last (roadPath s)) + cameraOffsetY s > - 200")
    case True
    from extendRoad_props [OF ne, of rnd] True assms show ?thesis
      by (auto simp add: moveCar_def Let_def)
  next
    case False
    with assms show ?thesis
      by (auto simp add: moveCar_def Let_def)
  qed
qed

lemma moveCar_horizon:
  assumes "roadPath s \<noteq> []" "300 \<le> car_y (car s)" "topOfRoad s \<le> - 194"
    and "moveCar rnd s = Inr s2"
  shows "300 \<le> car_y (car s2) \<and> topOfRoad s2 \<le> - 194"
proof -
  let ?s1 = "s\<lparr>car := (car s)\<lparr>car_x := car_x (car s) + cos (angle (car s)) * 6,
                              car_y := car_y (car s) + sin (angle (car s)) * 6, speed := 6\<rparr>,
               speedShown := 6\<rparr>"
  define ny where "ny = car_y (car s) + sin (angle (car s)) * 6"
  have ne: "roadPath ?s1 \<noteq> []" using assms by simp
  have "- 1 \<le> sin (angle (car s))" by (rule sin_ge_minus_one)
  then have ny: "car_y (car s) - 6 \<le> ny" by (simp add: ny_def)
  have top: "pt_y (last (roadPath s)) + cameraOffsetY s \<le> - 194"
    using assms(3) by (simp add: topOfRoad_def)
  show ?thesis
  proof (cases "pt_y (last (roadPath s)) + cameraOffsetY s > - 200")
    case True
    from extendRoad_props [OF ne, of rnd] obtain s' where
      e: "extendRoad rnd ?s1 = Inr s'" and
      y: "pt_y (last (roadPath s')) = pt_y (last (roadPath s)) - 300" and
      c: "car s' = car ?s1" and cam: "cameraOffsetY s' = cameraOffsetY s"
      by auto
    have cy: "car_y (car s') = ny" using c by (simp add: ny_def)
    have s2: "s2 = (if ny < 300
                    then s'\<lparr>cameraOffsetY := cameraOffsetY s + (300 - ny),
                            car := (car s')\<lparr>car_y := 300\<rparr>\<rparr>
                    else s')"
      using assms(1,4) True e cy cam by (auto simp add: moveCar_def Let_def)
    show ?thesis
    proof (cases "ny < 300")
      case True
      then show ?thesis using s2 y top ny assms(2) by (simp add: topOfRoad_def)
    next
      case False
      then show ?thesis using s2 y top cy cam by (simp add: topOfRoad_def)
    qed
  next
    case False
    have cy: "car_y (car ?s1) = ny" by (simp add: ny_def)
    have s2: "s2 = (if ny < 300
                    then ?s1\<lparr>cameraOffsetY := cameraOffsetY s + (300 - ny),
                            car := (car ?s1)\<lparr>car_y := 300\<rparr>\<rparr>
                    else ?s1)"
      using assms(1,4) False by (auto simp add: moveCar_def Let_def ny_def)
    show ?thesis
    proof (cases "ny < 300")
      case True
      then show ?thesis using s2 False ny assms(2) by (simp add: topOfRoad_def)
    next
      case f: False
      then show ?thesis using s2 top by (simp add: topOfRoad_def ny_def)
    qed
  qed
qed

subsection \<open>Repeated extension\<close>

lemma upt15: "[0..<15] = [0,1,2,3,4,5,6,7,8,9,10,11,12,13,14]"
  by (simp add: upt_conv_Cons)

lemma upt5: "[0..<5] = [0,1,2,3,4]"
  by (simp add: upt_conv_Cons)

lemma extendTimes_inv:
  "roadPath s \<noteq> [] \<Longrightarrow> list_all inRange (roadPath s) \<Longrightarrow>
   \<exists>s'. extendTimes rnd k s = Inr s' \<and> roadPath s' \<noteq> [] \<and> list_all inRange (roadPath s')
        \<and> length (roadPath s') = length (roadPath s) + 5 * k"
proof (induction k arbitrary: s)
  case 0
  then show ?case by simp
next
  case (Suc k)
  from extendRoad_props [OF Suc.prems(1), of rnd] obtain s1 new where
    e: "extendRoad rnd s = Inr s1" and p: "roadPath s1 = roadPath s @ new"
    and n: "length new = 5" "list_all inRange new"
    by auto
  have "roadPath s1 \<noteq> []" "list_all inRange (roadPath s1)"
    using p n Suc.prems by simp_all
  from Suc.IH [OF this] show ?case using e p n by auto
qed

subsection \<open>One tick\<close>

lemma finishTick_frame:
  "roadPath (fst (finishTick m s)) = roadPath s"
  "car (fst (finishTick m s)) = car s"
  "cameraOffsetY (fst (finishTick m s)) = cameraOffsetY s"
  "coins (fst (finishTick m s)) =
     fst (coinsForEach (car s) (cameraOffsetY s) (coins s)
            \<lparr>sc_score = score s, sc_triggered = actionTriggered s,
             sc_callbacks = 0, sc_maxReached = False\<rparr>)"
  by (simp_all add: finishTick_def Let_def split_beta)

lemma finishTick_events:
  "offRoad (snd (finishTick m s)) = (m \<and> \<not> isCarOnRoad (car s) (roadPath s))"
  "offScreen (snd (finishTick m s)) = (car_x (car s) < 0 \<or> car_x (car s) > 800)"
  "maxScore (snd (finishTick m s)) =
     (score s < score (fst (finishTick m s)) \<and> 20000 \<le> score (fst (finishTick m s)))"
  "isGameOver (fst (finishTick m s)) =
     (offRoad (snd (finishTick m s)) \<or> offScreen (snd (finishTick m s))
       \<or> maxScore (snd (finishTick m s)))"
  by (simp_all add: finishTick_def Let_def split_beta coinsForEach_max)

lemma finishTick_score:
  "score (fst (finishTick m s)) =
     score s + 10 * (nCollected (coins (fst (finishTick m s))) - nCollected (coins s))"
  "score s \<le> score (fst (finishTick m s))"
  using coinsForEach_score [of "car s" "cameraOffsetY s" "coins s"
      "\<lparr>sc_score = score s, sc_triggered = actionTriggered s,
        sc_callbacks = 0, sc_maxReached = False\<rparr>"]
    coinsForEach_score_mono [of "\<lparr>sc_score = score s, sc_triggered = actionTriggered s,
        sc_callbacks = 0, sc_maxReached = False\<rparr>" "car s" "cameraOffsetY s" "coins s"]
  by (simp_all add: finishTick_def Let_def split_beta)

lemma finishTick_latch:
  assumes "actionTriggered s = (300 \<le> score s)"
  shows "actionTriggered (fst (finishTick m s)) = (300 \<le> score (fst (finishTick m s)))"
    and "callbacks (snd (finishTick m s)) =
           (if score s < 300 \<and> 300 \<le> score (fst (finishTick m s)) then 1 else 0)"
proof -
  let ?u = "\<lparr>sc_score = score s, sc_triggered = actionTriggered s,
             sc_callbacks = 0, sc_maxReached = False\<rparr>"
  have l: "latchOk ?u" using assms by (simp add: latchOk_def)
  from coinsForEach_latch [OF l, of "car s" "cameraOffsetY s" "coins s"]
  show "actionTriggered (fst (finishTick m s)) = (300 \<le> score (fst (finishTick m s)))"
    by (simp add: finishTick_def Let_def split_beta latchOk_def)
  from coinsForEach_callbacks [OF l, of "car s" "cameraOffsetY s" "coins s"]
  show "callbacks (snd (finishTick m s)) =
           (if score s < 300 \<and> 300 \<le> score (fst (finishTick m s)) then 1 else 0)"
    by (simp add: finishTick_def Let_def split_beta)
qed

lemma nCollected_append:
  "list_all (\<lambda>c. \<not> collected c) newc \<Longrightarrow> nCollected (cs @ newc) = nCollected cs"
  by (simp add: nCollected_def list_all_iff)

lemma driveCar_props:
  assumes "roadPath s \<noteq> []"
  shows "\<exists>s2 new newc. driveCar rnd k s = Inr s2
           \<and> roadPath s2 = roadPath s @ new \<and> list_all inRange new
           \<and> coins s2 = coins s @ newc \<and> list_all (\<lambda>c. \<not> collected c) newc
           \<and> score s2 = score s \<and> actionTriggered s2 = actionTriggered s
           \<and> isGameOver s2 = isGameOver s"
proof (cases "'' '' \<in> k")
  case True
  have "roadPath (turnCar k s) \<noteq> []" using assms by (simp add: turnCar_simps)
  from moveCar_props [OF this, of rnd] True show ?thesis
    by (auto simp add: driveCar_def Let_def turnCar_simps)
next
  case False
  then show ?thesis
    by (simp add: driveCar_def Let_def turnCar_simps stopCar_simps)
qed

lemma driveCar_horizon:
  assumes "roadPath s \<noteq> []" "300 \<le> car_y (car s)" "topOfRoad s \<le> - 194"
    and "driveCar rnd k s = Inr s2"
  shows "300 \<le> car_y (car s2) \<and> topOfRoad s2 \<le> - 194"
proof (cases "'' '' \<in> k")
  case True
  have a: "roadPath (turnCar k s) \<noteq> []" "300 \<le> car_y (car (turnCar k s))"
    "topOfRoad (turnCar k s) \<le> - 194"
    using assms(1-3) by (simp_all add: turnCar_simps topOfRoad_def)
  have "moveCar rnd (turnCar k s) = Inr s2"
    using assms(4) True by (simp add: driveCar_def Let_def)
  from moveCar_horizon [OF a this] show ?thesis .
next
  case False
  then have "s2 = stopCar (turnCar k s)"
    using assms(4) by (simp add: driveCar_def Let_def)
  then show ?thesis using assms(2,3)
    by (simp add: topOfRoad_def turnCar_simps stopCar_simps)
qed

lemma gameLoop_halted:
  "p \<or> isGameOver s \<Longrightarrow> gameLoop rnd p k s = Inr (s, noEvents)"
  by (auto simp add: gameLoop_def)

lemma gameLoop_running:
  assumes "\<not> p" "\<not> isGameOver s" "roadPath s \<noteq> []"
  shows "\<exists>s2 new newc. driveCar rnd k s = Inr s2
           \<and> roadPath s2 = roadPath s @ new \<and> list_all inRange new
           \<and> coins s2 = coins s @ newc \<and> list_all (\<lambda>c. \<not> collected c) newc
           \<and> score s2 = score s \<and> actionTriggered s2 = actionTriggered s
           \<and> gameLoop rnd p k s = Inr (finishTick ('' '' \<in> k) s2)"
proof -
  from driveCar_props [OF assms(3), of rnd k] obtain s2 new newc where
    d: "driveCar rnd k s = Inr s2"
    and r: "roadPath s2 = roadPath s @ new" "list_all inRange new"
      "coins s2 = coins s @ newc" "list_all (\<lambda>c. \<not> collected c) newc"
      "score s2 = score s" "actionTriggered s2 = actionTriggered s"
    by blast
  have "gameLoop rnd p k s = Inr (finishTick ('' '' \<in> k) s2)"
    using assms d r(1) by (simp add: gameLoop_def)
  with d r show ?thesis by blast
qed

lemma gameLoop_step:
  assumes "gameInv s"
  shows "\<exists>s' ev. gameLoop rnd p k s = Inr (s', ev) \<and> gameInv s'
           \<and> score s \<le> score s'
           \<and> callbacks ev = (if score s < 300 \<and> 300 \<le> score s' then 1 else 0)"
proof (cases "p \<or> isGameOver s")
  case True
  from gameLoop_halted [OF this, of rnd k] assms show ?thesis
    by (simp add: noEvents_def)
next
  case False
  then have np: "\<not> p" "\<not> isGameOver s" by simp_all
  have ne: "roadPath s \<noteq> []" using assms by (simp add: gameInv_def)
  from gameLoop_running [OF np ne, of rnd k] obtain s2 new newc where
    d: "driveCar rnd k s = Inr s2"
    and r: "roadPath s2 = roadPath s @ new"
      "coins s2 = coins s @ newc" "list_all (\<lambda>c. \<not> collected c) newc"
      "score s2 = score s" "actionTriggered s2 = actionTriggered s"
    and g: "gameLoop rnd p k s = Inr (finishTick ('' '' \<in> k) s2)"
    by blast
  let ?f = "finishTick ('' '' \<in> k) s2"
  have h: "300 \<le> car_y (car s2) \<and> topOfRoad s2 \<le> - 194"
    using assms by (intro driveCar_horizon [OF ne _ _ d]) (simp_all add: gameInv_def)
  have l2: "actionTriggered s2 = (300 \<le> score s2)"
    using assms r by (simp add: gameInv_def)
  have n2: "score s2 = 10 * nCollected (coins s2)"
    using assms r by (simp add: gameInv_def nCollected_append)
  have "gameInv (fst ?f)"
    using ne h r(1) finishTick_latch(1) [OF l2, of "'' '' \<in> k"]
      finishTick_score(1) [of "'' '' \<in> k" s2] n2
    by (simp add: gameInv_def finishTick_frame(1,2,3) topOfRoad_def)
  moreover have "score s \<le> score (fst ?f)"
    using finishTick_score(2) [of s2 "'' '' \<in> k"] r by simp
  moreover have "callbacks (snd ?f) = (if score s < 300 \<and> 300 \<le> score (fst ?f) then 1 else 0)"
    using finishTick_latch(2) [OF l2, of "'' '' \<in> k"] r by simp
  ultimately show ?thesis using g by (cases ?f) auto
qed

subsection \<open>Reset and runs\<close>

lemma fold_initCoinStep_new:
  "list_all (\<lambda>c. \<not> collected c) (fst t) \<Longrightarrow>
   list_all (\<lambda>c. \<not> collected c) (fst (fold (initCoinStep rnd path) is t))"
proof (induction "is" arbitrary: t)
  case Nil
  then show ?case by simp
next
  case (Cons i "is")
  have "list_all (\<lambda>c. \<not> collected c) (fst (initCoinStep rnd path i t))"
    using Cons.prems by (cases t) (simp add: Let_def)
  from Cons.IH [OF this] show ?case by simp
qed

lemma initializeCoins_props:
  "list_all (\<lambda>c. \<not> collected c) (coins (initializeCoins rnd s))"
  "roadPath (initializeCoins rnd s) = roadPath s"
  "car (initializeCoins rnd s) = car s"
  "cameraOffsetY (initializeCoins rnd s) = cameraOffsetY s"
  "score (initializeCoins rnd s) = score s"
  "actionTriggered (initializeCoins rnd s) = actionTriggered s"
  "isGameOver (initializeCoins rnd s) = isGameOver s"
  using fold_initCoinStep_new [of "([], draws s)" rnd "roadPath s" "[1..<length (roadPath s) - 1]"]
  by (simp_all add: initializeCoins_def split_beta)

lemma initializeRoad_frame:
  "car (initializeRoad rnd s) = car s"
  "cameraOffsetY (initializeRoad rnd s) = cameraOffsetY s"
  "score (initializeRoad rnd s) = score s"
  "actionTriggered (initializeRoad rnd s) = actionTriggered s"
  "isGameOver (initializeRoad rnd s) = isGameOver s"
  by (simp_all add: initializeRoad_def split_beta)

lemma resetGame_props:
  "length (roadPath (resetGame rnd s)) = 16"
  "list_all inRange (roadPath (resetGame rnd s))"
  "pt_y (last (roadPath (resetGame rnd s))) = - 300"
  "list_all (\<lambda>c. \<not> collected c) (coins (resetGame rnd s))"
  "car (resetGame rnd s) = \<lparr>car_x = 400, car_y = 500, angle = - pi / 2, speed = 0\<rparr>"
  "cameraOffsetY (resetGame rnd s) = 0"
  "score (resetGame rnd s) = 0"
  "actionTriggered (resetGame rnd s) = False"
  "isGameOver (resetGame rnd s) = isGameOver s"
  using initializeRoad_props [of rnd "s\<lparr>score := 0, speedShown := 0, actionTriggered := False,
          car := \<lparr>car_x = 400, car_y = 500, angle = - pi / 2, speed = 0\<rparr>,
          coins := [], roadPath := [], cameraOffsetY := 0\<rparr>"]
  by (simp_all add: resetGame_def initializeCoins_props initializeRoad_frame)

lemma handleReset_inv: "gameInv (handleReset rnd s)"
proof -
  have "length (roadPath (handleReset rnd s)) = 16"
    by (simp add: handleReset_def resetGame_props)
  then have "roadPath (handleReset rnd s) \<noteq> []" by auto
  moreover have "nCollected (coins (handleReset rnd s)) = 0"
    using resetGame_props(4) [of rnd "s\<lparr>isGameOver := False\<rparr>"]
    by (simp add: handleReset_def nCollected_def list_all_iff)
  ultimately show ?thesis
    by (simp add: gameInv_def handleReset_def resetGame_props topOfRoad_def)
qed

lemma run_steps:
  assumes "gameInv s"
  shows "\<exists>sf tr. run rnd inputs s = Inr (sf, tr) \<and> gameInv sf
           \<and> length tr = length inputs
           \<and> sf = last (s # map fst tr)
           \<and> (\<forall>i < length tr.
                  gameLoop rnd (fst (inputs ! i)) (snd (inputs ! i)) ((s # map fst tr) ! i)
                    = Inr (tr ! i)
                  \<and> gameInv ((s # map fst tr) ! i))"
  using assms
proof (induction inputs arbitrary: s)
  case Nil
  then show ?case by simp
next
  case (Cons a inputs)
  obtain p k where a: "a = (p, k)" by (cases a)
  from gameLoop_step [OF Cons.prems, of rnd p k] obtain s' ev where
    g: "gameLoop rnd p k s = Inr (s', ev)" and i: "gameInv s'"
    by blast
  from Cons.IH [OF i] obtain sf tr where
    r: "run rnd inputs s' = Inr (sf, tr)" "gameInv sf" "length tr = length inputs"
      "sf = last (s' # map fst tr)"
    and st: "\<forall>i < length tr.
                  gameLoop rnd (fst (inputs ! i)) (snd (inputs ! i)) ((s' # map fst tr) ! i)
                    = Inr (tr ! i)
                  \<and> gameInv ((s' # map fst tr) ! i)"
    by blast
  have "run rnd (a # inputs) s = Inr (sf, (s', ev) # tr)"
    using g r(1) by (simp add: a)
  moreover have "\<forall>i < length ((s', ev) # tr).
                  gameLoop rnd (fst ((a # inputs) ! i)) (snd ((a # inputs) ! i))
                     ((s # map fst ((s', ev) # tr)) ! i) = Inr (((s', ev) # tr) ! i)
                  \<and> gameInv ((s # map fst ((s', ev) # tr)) ! i)"
  proof (intro allI impI)
    fix i assume "i < length ((s', ev) # tr)"
    then show "gameLoop rnd (fst ((a # inputs) ! i)) (snd ((a # inputs) ! i))
                     ((s # map fst ((s', ev) # tr)) ! i) = Inr (((s', ev) # tr) ! i)
                  \<and> gameInv ((s # map fst ((s', ev) # tr)) ! i)"
      using g st Cons.prems by (cases i) (simp_all add: a)
  qed
  ultimately show ?case using r by auto
qed

lemma run_callbacks_sum:
  assumes "gameInv s"
  shows "\<exists>sf tr. run rnd inputs s = Inr (sf, tr) \<and> score s \<le> score sf
           \<and> sum_list (map (\<lambda>x. callbacks (snd x)) tr)
                = (if score s < 300 \<and> 300 \<le> score sf then 1 else 0)"
  using assms
proof (induction inputs arbitrary: s)
  case Nil
  then show ?case by simp
next
  case (Cons a inputs)
  obtain p k where a: "a = (p, k)" by (cases a)
  from gameLoop_step [OF Cons.prems, of rnd p k] obtain s' ev where
    g: "gameLoop rnd p k s = Inr (s', ev)" and i: "gameInv s'"
    and m: "score s \<le> score s'"
    and c: "callbacks ev = (if score s < 300 \<and> 300 \<le> score s' then 1 else 0)"
    by blast
  from Cons.IH [OF i] obtain sf tr where
    r: "run rnd inputs s' = Inr (sf, tr)" and m': "score s' \<le> score sf"
    and c': "sum_list (map (\<lambda>x. callbacks (snd x)) tr)
                = (if score s' < 300 \<and> 300 \<le> score sf then 1 else 0)"
    by blast
  have "run rnd (a # inputs) s = Inr (sf, (s', ev) # tr)"
    using g r by (simp add: a)
  moreover have "sum_list (map (\<lambda>x. callbacks (snd x)) ((s', ev) # tr))
                = (if score s < 300 \<and> 300 \<le> score sf then 1 else 0)"
    using c c' m m' by auto
  ultimately show ?case using m m' by auto
qed

lemma run_tick:
  assumes "gameInv s" "run rnd inputs s = Inr (sf, tr)" "i < length tr"
  shows "gameInv (fst (tr ! i)) \<and> score ((s # map fst tr) ! i) \<le> score (fst (tr ! i))
         \<and> callbacks (snd (tr ! i))
             = (if score ((s # map fst tr) ! i) < 300 \<and> 300 \<le> score (fst (tr ! i))
                then 1 else 0)"
proof -
  from run_steps [OF assms(1), of rnd inputs] assms(2,3)
  have g: "gameLoop rnd (fst (inputs ! i)) (snd (inputs ! i)) ((s # map fst tr) ! i)
             = Inr (tr ! i)"
    and inv: "gameInv ((s # map fst tr) ! i)"
    by auto
  from gameLoop_step [OF inv, of rnd "fst (inputs ! i)" "snd (inputs ! i)"] g
  show ?thesis by auto
qed

lemma gameLoop_latch:
  assumes "roadPath s \<noteq> []" "actionTriggered s = (300 \<le> score s)"
  shows "\<exists>s' ev. gameLoop rnd p k s = Inr (s', ev)
           \<and> actionTriggered s' = (300 \<le> score s')
           \<and> callbacks ev = (if score s < 300 \<and> 300 \<le> score s' then 1 else 0)"
proof (cases "p \<or> isGameOver s")
  case True
  from gameLoop_halted [OF this, of rnd k] assms show ?thesis
    by (simp add: noEvents_def)
next
  case False
  then have np: "\<not> p" "\<not> isGameOver s" by simp_all
  from gameLoop_running [OF np assms(1), of rnd k] obtain s2 where
    r: "score s2 = score s" "actionTriggered s2 = actionTriggered s"
    and g: "gameLoop rnd p k s = Inr (finishTick ('' '' \<in> k) s2)"
    by blast
  have l2: "actionTriggered s2 = (300 \<le> score s2)"
    using assms r by simp
  from finishTick_latch [OF l2, of "'' '' \<in> k"] r g show ?thesis
    by (cases "finishTick ('' '' \<in> k) s2") auto
qed

subsection \<open>Distance to the road\<close>

lemma distanceToSegment_total: "\<exists>d. distanceToSegment c p1 p2 = Some d"
  by (simp add: distanceToSegment_def segmentParam_def js_divide_def Let_def split_beta)

lemma distanceToSegment_degenerate:
  "distanceToSegment c p p =
     Some (sqrt ((car_x c - pt_x p) * (car_x c - pt_x p) + (car_y c - pt_y p) * (car_y c - pt_y p)))"
  by (simp add: distanceToSegment_def segmentParam_def js_divide_def Let_def)

lemma distanceToSegment_spec:
  "distanceToSegment c p1 p2 = Some (spec_segmentDistance c p1 p2)"
proof (cases "(pt_x p2 - pt_x p1) * (pt_x p2 - pt_x p1) + (pt_y p2 - pt_y p1) * (pt_y p2 - pt_y p1) = 0")
  case True
  then have "pt_x p2 - pt_x p1 = 0" "pt_y p2 - pt_y p1 = 0"
    by (simp_all add: sum_squares_eq_zero_iff)
  then show ?thesis
    by (simp add: distanceToSegment_def segmentParam_def js_divide_def Let_def
        spec_segmentDistance_def)
next
  case False
  then show ?thesis
    by (simp add: distanceToSegment_def segmentParam_def js_divide_def Let_def
        spec_segmentDistance_def max_def min_def)
qed

lemma minDistance_Dist:
  "minDistance c path (Dist m) =
     Dist (Min (insert m (set (map (\<lambda>(p1, p2). spec_segmentDistance c p1 p2) (zip path (tl path))))))"
proof (induction c path "Dist m" arbitrary: m rule: minDistance.induct)
  case (1 c p1 p2 ps)
  have "minDistance c (p1 # p2 # ps) (Dist m) =
        minDistance c (p2 # ps) (Dist (min m (spec_segmentDistance c p1 p2)))"
    by (simp add: distanceToSegment_spec)
  also have "\<dots> = Dist (Min (insert (min m (spec_segmentDistance c p1 p2))
      (set (map (\<lambda>(p1, p2). spec_segmentDistance c p1 p2) (zip (p2 # ps) (tl (p2 # ps)))))))"
    by (rule 1) (simp add: distanceToSegment_spec)
  finally show ?case
    by (cases "zip (p2 # ps) ps = []") (simp_all add: min.assoc min.commute min.left_commute)
qed simp_all

lemma minDistance_Infinity:
  "2 \<le> length path \<Longrightarrow> minDistance c path Infinity = Dist (spec_minDistance c path)"
proof -
  assume "2 \<le> length path"
  then obtain p1 p2 ps where p: "path = p1 # p2 # ps"
    by (cases path; cases "tl path") auto
  have "minDistance c path Infinity =
          minDistance c (p2 # ps) (Dist (spec_segmentDistance c p1 p2))"
    by (simp add: p distanceToSegment_spec)
  then show ?thesis
    by (simp add: minDistance_Dist spec_minDistance_def p)
qed

lemma driveCar_still:
  "'' '' \<notin> k \<Longrightarrow> driveCar rnd k s = Inr (stopCar (turnCar k s))"
  by (simp add: driveCar_def Let_def)

subsection \<open>Where coins are spawned\<close>












subsection \<open>Evaluations on concrete states\<close>

lemma upt1_15: "[1..<15] = [1,2,3,4,5,6,7,8,9,10,11,12,13,14]"
  by (simp add: upt_conv_Cons)

lemma run_idle_tick:
  "run (\<lambda>n. 0) [(False, {})] (handleReset (\<lambda>n. 0) initialState) =
     Inr (handleReset (\<lambda>n. 0) initialState, [(handleReset (\<lambda>n. 0) initialState, noEvents)])"
  by (simp add: handleReset_def resetGame_def initializeCoins_def initializeRoad_def
      initialState_def upt15 upt1_15 roadDirection_def keepInBounds_def
      gameLoop_def driveCar_def turnCar_def stopCar_def finishTick_def noEvents_def)

lemma gameLoop_nearMilestone:
  "gameLoop (\<lambda>n. 0) False {} nearMilestone =
     Inr (nearMilestone\<lparr>coins := [\<lparr>coin_x = 400, coin_y = 500, collected = True\<rparr>,
               \<lparr>coin_x = 400, coin_y = 500, collected = True\<rparr>,
               \<lparr>coin_x = 400, coin_y = 500, collected = True\<rparr>], score := 310, actionTriggered := True\<rparr>,
          \<lparr>offRoad = False, offScreen = False, maxScore = False, callbacks = 1\<rparr>)"
  by (simp add: gameLoop_def driveCar_def turnCar_def stopCar_def finishTick_def
      nearMilestone_def coinStep_def checkCollision_def scoreUpdater_def Let_def)

lemma sqrt_180: "sqrt 32400 = 180"
  using real_sqrt_abs2 [of 180] by simp

lemma spec_minDistance_border: "spec_minDistance borderCar straightRoad = 180"
  by (simp add: spec_minDistance_def spec_segmentDistance_def borderCar_def straightRoad_def
      sqrt_180)

lemma sqrt_less_180: "sqrt x < 180 \<longleftrightarrow> x < 32400"
  using real_sqrt_less_iff [of x 32400] by (simp add: sqrt_180)

lemma gameLoop_roadside:
  "gameLoop (\<lambda>n. 0) False {'' ''} roadsideState =
     Inr (roadsideState\<lparr>car := \<lparr>car_x = 586, car_y = 570, angle = 0, speed = 6\<rparr>,
                        speedShown := 6, isGameOver := True\<rparr>,
          \<lparr>offRoad = True, offScreen = False, maxScore = False, callbacks = 0\<rparr>)"
  by (simp add: gameLoop_def driveCar_def turnCar_def moveCar_def finishTick_def
      roadsideState_def longRoad_def isCarOnRoad_def distanceToSegment_def segmentParam_def
      js_divide_def sqrt_less_180 Let_def)

lemma gameLoop_roadside_idle:
  "gameLoop (\<lambda>n. 0) False {} roadsideState =
     Inr (roadsideState, noEvents)"
  by (simp add: gameLoop_def driveCar_def turnCar_def stopCar_def finishTick_def
      roadsideState_def longRoad_def noEvents_def Let_def)

lemma gameLoop_offScreen:
  "gameLoop (\<lambda>n. 0) False {} offScreenState =
     Inr (offScreenState\<lparr>isGameOver := True\<rparr>,
          \<lparr>offRoad = False, offScreen = True, maxScore = False, callbacks = 0\<rparr>)"
  by (simp add: gameLoop_def driveCar_def turnCar_def stopCar_def finishTick_def
      offScreenState_def longRoad_def Let_def)

lemma gameLoop_belowFrame:
  "gameLoop (\<lambda>n. 0) False {} belowFrameState = Inr (belowFrameState, noEvents)"
  by (simp add: gameLoop_def driveCar_def turnCar_def stopCar_def finishTick_def
      belowFrameState_def longRoad_def noEvents_def coinStep_def Let_def)



subsection \<open>Driving straight up after a reset\<close>

lemma handleReset_drivingUp: "drivingUp 0 (handleReset (\<lambda>n. 0) initialState)"
  by (simp add: drivingUp_def leftRoad_def handleReset_def resetGame_def initializeCoins_def
      initializeRoad_def initialState_def upt15 upt1_15 roadDirection_def keepInBounds_def)

lemma square_bound: "- a \<le> x \<Longrightarrow> x \<le> a \<Longrightarrow> x * x \<le> a * (a::real)"
  using abs_le_square_iff [of x a] by (simp add: power2_eq_square abs_le_iff)

lemma near_segment:
  assumes "car_x c = 400" "300 \<le> car_y c" "car_y c \<le> 500"
  shows "spec_segmentDistance c \<lparr>pt_x = 352, pt_y = 480\<rparr> \<lparr>pt_x = 352, pt_y = 420\<rparr> < 180"
proof -
  define t where "t = (480 - car_y c) / 60"
  define tc where "tc = max 0 (min 1 t)"
  define dy where "dy = car_y c - (480 - tc * 60)"
  have d: "spec_segmentDistance c \<lparr>pt_x = 352, pt_y = 480\<rparr> \<lparr>pt_x = 352, pt_y = 420\<rparr>
           = sqrt (48 * 48 + dy * dy)"
  proof -
    have "((car_y c - 480) * - 60) / 3600 = t" by (simp add: t_def)
    then show ?thesis
      using assms(1)
      by (simp add: spec_segmentDistance_def Let_def dy_def tc_def)
  qed
  have t60: "t * 60 = 480 - car_y c" by (simp add: t_def)
  have "- 120 \<le> dy \<and> dy \<le> 120"
    using assms(2,3) t60 by (auto simp add: dy_def tc_def max_def min_def)
  then have "dy * dy \<le> 120 * 120" by (intro square_bound) simp_all
  then show ?thesis unfolding d by (simp add: sqrt_less_180)
qed

lemma onRoad_leftRoad:
  assumes "car_x c = 400" "300 \<le> car_y c" "car_y c \<le> 500"
  shows "isCarOnRoad c leftRoad"
proof -
  have l: "2 \<le> length leftRoad" by (simp add: leftRoad_def)
  have m: "spec_segmentDistance c \<lparr>pt_x = 352, pt_y = 480\<rparr> \<lparr>pt_x = 352, pt_y = 420\<rparr>
         \<in> set (map (\<lambda>(p1, p2). spec_segmentDistance c p1 p2) (zip leftRoad (tl leftRoad)))"
    by (simp add: leftRoad_def)
  have "spec_minDistance c leftRoad
          \<le> spec_segmentDistance c \<lparr>pt_x = 352, pt_y = 480\<rparr> \<lparr>pt_x = 352, pt_y = 420\<rparr>"
    unfolding spec_minDistance_def using m by (intro Min_le) simp_all
  with near_segment [OF assms] have "spec_minDistance c leftRoad < 180" by simp
  then show ?thesis
    by (simp add: isCarOnRoad_def minDistance_Infinity [OF l])
qed

lemma drivingUp_tick:
  assumes "drivingUp m s" "m \<le> 50"
  shows "\<exists>s' ev. gameLoop rnd False {'' ''} s = Inr (s', ev) \<and> drivingUp (Suc m) s'"
proof -
  have c: "car_x (car s) = 400" "car_y (car s) = max 300 (500 - 6 * real m)"
    "angle (car s) = - pi / 2" "cameraOffsetY s = max 0 (6 * real m - 200)"
    "coins s = []" "roadPath s = leftRoad" "\<not> isGameOver s"
    using assms(1) by (simp_all add: drivingUp_def)
  have m: "real m \<le> 50" using assms(2) by simp
  define ny where "ny = max 300 (500 - 6 * real m) - 6"
  have nx: "car_x (car s) + cos (angle (car s)) * 6 = 400" by (simp add: c)
  have ny': "car_y (car s) + sin (angle (car s)) * 6 = ny" by (simp add: c ny_def)
  have ne: "roadPath s \<noteq> []" by (simp add: c leftRoad_def)
  have top: "\<not> - 200 < pt_y (last (roadPath s)) + cameraOffsetY s"
    using m by (simp add: c(4,6) leftRoad_def max_def)
  consider "m \<le> 32" | "m = 33" | "34 \<le> m" by linarith
  then have v: "(if ny < 300 then 300 else ny) = max 300 (500 - 6 * real (Suc m))
      \<and> (if ny < 300 then cameraOffsetY s + (300 - ny) else cameraOffsetY s)
          = max 0 (6 * real (Suc m) - 200)"
  proof cases
    case 1
    then have "real m \<le> 32" by simp
    then show ?thesis by (simp add: ny_def max_def c(4))
  next
    case 2
    then show ?thesis by (simp add: ny_def max_def c(4))
  next
    case 3
    then have "34 \<le> real m" by simp
    then show ?thesis by (simp add: ny_def max_def c(4))
  qed
  define s2 where
    "s2 = (if ny < 300
           then s\<lparr>car := (car s)\<lparr>car_x := 400, car_y := ny, speed := 6\<rparr>, speedShown := 6,
                   cameraOffsetY := cameraOffsetY s + (300 - ny),
                   car := (car s)\<lparr>car_x := 400, car_y := ny, speed := 6, car_y := 300\<rparr>\<rparr>
           else s\<lparr>car := (car s)\<lparr>car_x := 400, car_y := ny, speed := 6\<rparr>, speedShown := 6\<rparr>)"
  have mv: "moveCar rnd s = Inr s2"
    using top ne by (simp add: moveCar_def Let_def nx ny' s2_def)
  have t: "turnCar {'' ''} s = s"
    by (simp add: turnCar_def)
  have d: "driveCar rnd {'' ''} s = Inr s2"
    by (simp add: driveCar_def Let_def t mv)
  have p2: "car_x (car s2) = 400" "angle (car s2) = - pi / 2" "coins s2 = []"
    "roadPath s2 = leftRoad" "score s2 = score s" "actionTriggered s2 = actionTriggered s"
    by (simp_all add: s2_def c)
  have y2: "car_y (car s2) = max 300 (500 - 6 * real (Suc m))"
    using v by (cases "ny < 300") (simp_all add: s2_def)
  have c2: "cameraOffsetY s2 = max 0 (6 * real (Suc m) - 200)"
    using v by (cases "ny < 300") (simp_all add: s2_def)
  have "300 \<le> car_y (car s2)" "car_y (car s2) \<le> 500"
    unfolding y2 by (simp_all add: max_def)
  with p2(1) have on: "isCarOnRoad (car s2) (roadPath s2)"
    unfolding p2(4) by (intro onRoad_leftRoad)
  define s3 where "s3 = fst (finishTick True s2)"
  have "coins s3 = [] \<and> roadPath s3 = leftRoad \<and> car s3 = car s2
        \<and> cameraOffsetY s3 = cameraOffsetY s2 \<and> \<not> isGameOver s3"
    using on p2 by (simp add: s3_def finishTick_def Let_def)
  then have "drivingUp (Suc m) s3"
    using p2 y2 c2 by (simp add: drivingUp_def)
  moreover have "gameLoop rnd False {'' ''} s = Inr (s3, snd (finishTick True s2))"
    using c(7) d p2(4) by (simp add: gameLoop_def s3_def leftRoad_def)
  ultimately show ?thesis by blast
qed

lemma drivingUp_run:
  "drivingUp m s \<Longrightarrow> m + n \<le> 51 \<Longrightarrow>
   \<exists>sf tr. run rnd (replicate n (False, {'' ''})) s = Inr (sf, tr) \<and> drivingUp (m + n) sf"
proof (induction n arbitrary: m s)
  case 0
  then show ?case by simp
next
  case (Suc n)
  then have "m \<le> 50" by simp
  from drivingUp_tick [OF Suc.prems(1) this, of rnd] obtain s' ev where
    g: "gameLoop rnd False {'' ''} s = Inr (s', ev)" and d: "drivingUp (Suc m) s'"
    by blast
  have "Suc m + n \<le> 51" using Suc.prems(2) by simp
  from Suc.IH [OF d this] obtain sf tr where
    r: "run rnd (replicate n (False, {'' ''})) s' = Inr (sf, tr)" "drivingUp (Suc m + n) sf"
    by blast
  then show ?case using g by auto
qed


subsection \<open>Picking up coins\<close>

lemma coinStep_hit:
  "\<not> collected coin \<Longrightarrow> touches c cam coin \<Longrightarrow>
   coinStep c cam coin u = (coin\<lparr>collected := True\<rparr>, scoreUpdater u)"
  by (simp add: coinStep_def touches_def culled_def Let_def)

lemma coinStep_miss:
  "\<not> (\<not> collected coin \<and> touches c cam coin) \<Longrightarrow> coinStep c cam coin u = (coin, u)"
  by (auto simp add: coinStep_def touches_def culled_def Let_def)

lemma coinsForEach_pickUp:
  "fst (coinsForEach c cam cs u) = map (pickUp c cam) cs
   \<and> sc_score (snd (coinsForEach c cam cs u)) = sc_score u + 10 * int (freshHits c cam cs)"
proof (induction cs arbitrary: u)
  case Nil
  show ?case by (simp add: freshHits_def)
next
  case (Cons coin cs)
  show ?case
  proof (cases "\<not> collected coin \<and> touches c cam coin")
    case True
    then have "coinStep c cam coin u = (coin\<lparr>collected := True\<rparr>, scoreUpdater u)"
      by (simp add: coinStep_hit)
    then show ?thesis
      using True Cons.IH [of "scoreUpdater u"]
      by (simp add: split_beta Let_def pickUp_def freshHits_def scoreUpdater_score)
  next
    case False
    then have "coinStep c cam coin u = (coin, u)" by (rule coinStep_miss)
    then show ?thesis
      using False Cons.IH [of u]
      by (simp add: split_beta Let_def pickUp_def freshHits_def)
  qed
qed

lemma finishTick_pickUp:
  "coins (fst (finishTick m s)) = map (pickUp (car s) (cameraOffsetY s)) (coins s)
   \<and> score (fst (finishTick m s)) = score s + 10 * int (freshHits (car s) (cameraOffsetY s) (coins s))"
  using coinsForEach_pickUp [of "car s" "cameraOffsetY s" "coins s"
      "\<lparr>sc_score = score s, sc_triggered = actionTriggered s,
        sc_callbacks = 0, sc_maxReached = False\<rparr>"]
  by (simp add: finishTick_def Let_def split_beta)

lemma gameLoop_pickUp:
  assumes "\<not> p" "\<not> isGameOver s" "roadPath s \<noteq> []"
  shows "\<exists>s' ev newc. gameLoop rnd p k s = Inr (s', ev)
           \<and> list_all (\<lambda>c. \<not> collected c) newc
           \<and> coins s' = map (pickUp (car s') (cameraOffsetY s')) (coins s @ newc)
           \<and> score s' = score s
                + 10 * int (freshHits (car s') (cameraOffsetY s') (coins s @ newc))"
proof -
  from gameLoop_running [OF assms, of rnd k] obtain s2 newc where
    sc: "score s2 = score s"
    and cs: "coins s2 = coins s @ newc" and nw: "list_all (\<lambda>c. \<not> collected c) newc"
    and g: "gameLoop rnd p k s = Inr (finishTick ('' '' \<in> k) s2)"
    by blast
  let ?f = "finishTick ('' '' \<in> k) s2"
  have fr: "car (fst ?f) = car s2" "cameraOffsetY (fst ?f) = cameraOffsetY s2"
    by (simp_all add: finishTick_frame)
  have "gameLoop rnd p k s = Inr (fst ?f, snd ?f)" using g by simp
  moreover have "coins (fst ?f) = map (pickUp (car (fst ?f)) (cameraOffsetY (fst ?f))) (coins s @ newc)"
    using finishTick_pickUp [of "'' '' \<in> k" s2] by (simp add: fr cs)
  moreover have "score (fst ?f) = score s
                + 10 * int (freshHits (car (fst ?f)) (cameraOffsetY (fst ?f)) (coins s @ newc))"
    using finishTick_pickUp [of "'' '' \<in> k" s2] by (simp add: fr cs sc)
  ultimately show ?thesis using nw by blast
qed

lemma run_tick_pickUp:
  assumes "gameInv s" "run rnd inputs s = Inr (sf, tr)" "i < length tr"
  shows "(fst (inputs ! i) \<or> isGameOver ((s # map fst tr) ! i)
            \<longrightarrow> fst (tr ! i) = (s # map fst tr) ! i)
       \<and> (\<not> fst (inputs ! i) \<and> \<not> isGameOver ((s # map fst tr) ! i) \<longrightarrow>
            (\<exists>newc. list_all (\<lambda>c. \<not> collected c) newc
               \<and> coins (fst (tr ! i))
                   = map (pickUp (car (fst (tr ! i))) (cameraOffsetY (fst (tr ! i))))
                       (coins ((s # map fst tr) ! i) @ newc)
               \<and> score (fst (tr ! i))
                   = score ((s # map fst tr) ! i)
                     + 10 * int (freshHits (car (fst (tr ! i))) (cameraOffsetY (fst (tr ! i)))
                                   (coins ((s # map fst tr) ! i) @ newc))))"
proof -
  let ?pre = "(s # map fst tr) ! i"
  from run_steps [OF assms(1), of rnd inputs] assms(2,3)
  have g: "gameLoop rnd (fst (inputs ! i)) (snd (inputs ! i)) ?pre = Inr (tr ! i)"
    and inv: "gameInv ?pre"
    by auto
  have ne: "roadPath ?pre \<noteq> []" using inv by (simp add: gameInv_def)
  have a: "fst (tr ! i) = ?pre" if h: "fst (inputs ! i) \<or> isGameOver ?pre"
    using gameLoop_halted [OF h, of rnd "snd (inputs ! i)"] g by simp
  have b: "\<exists>newc. list_all (\<lambda>c. \<not> collected c) newc
               \<and> coins (fst (tr ! i))
                   = map (pickUp (car (fst (tr ! i))) (cameraOffsetY (fst (tr ! i))))
                       (coins ?pre @ newc)
               \<and> score (fst (tr ! i))
                   = score ?pre
                     + 10 * int (freshHits (car (fst (tr ! i))) (cameraOffsetY (fst (tr ! i)))
                                   (coins ?pre @ newc))"
    if h: "\<not> fst (inputs ! i) \<and> \<not> isGameOver ?pre"
  proof -
    from h have np: "\<not> fst (inputs ! i)" "\<not> isGameOver ?pre" by simp_all
    from gameLoop_pickUp [OF np ne, of rnd "snd (inputs ! i)"] g show ?thesis by auto
  qed
  from a b show ?thesis by blast
qed

lemma sqrt_less_44: "sqrt x < 44 \<longleftrightarrow> x < 1936"
proof -
  have "sqrt 1936 = 44" using real_sqrt_abs2 [of 44] by simp
  then show ?thesis using real_sqrt_less_iff [of x 1936] by simp
qed

lemma handleReset_oneCoin:
  "coins (handleReset oneCoinRnd initialState) = [\<lparr>coin_x = 368, coin_y = 510, collected = False\<rparr>]"
  "car (handleReset oneCoinRnd initialState)
     = \<lparr>car_x = 400, car_y = 500, angle = - pi / 2, speed = 0\<rparr>"
  "cameraOffsetY (handleReset oneCoinRnd initialState) = 0"
  "score (handleReset oneCoinRnd initialState) = 0"
  "\<not> isGameOver (handleReset oneCoinRnd initialState)"
  by (simp_all add: handleReset_def resetGame_def initializeCoins_def initializeRoad_def
      initialState_def upt15 upt1_15 roadDirection_def keepInBounds_def oneCoinRnd_def)

lemma run_oneCoin:
  "run oneCoinRnd [(False, {}), (False, {}), (True, {})] (handleReset oneCoinRnd initialState) =
     Inr ((handleReset oneCoinRnd initialState)
            \<lparr>coins := [\<lparr>coin_x = 368, coin_y = 510, collected = True\<rparr>], score := 10\<rparr>,
          [((handleReset oneCoinRnd initialState)
              \<lparr>coins := [\<lparr>coin_x = 368, coin_y = 510, collected = True\<rparr>], score := 10\<rparr>,
            noEvents),
           ((handleReset oneCoinRnd initialState)
              \<lparr>coins := [\<lparr>coin_x = 368, coin_y = 510, collected = True\<rparr>], score := 10\<rparr>,
            noEvents),
           ((handleReset oneCoinRnd initialState)
              \<lparr>coins := [\<lparr>coin_x = 368, coin_y = 510, collected = True\<rparr>], score := 10\<rparr>,
            noEvents)])"
  by (simp add: handleReset_def resetGame_def initializeCoins_def initializeRoad_def
      initialState_def upt15 upt1_15 roadDirection_def keepInBounds_def oneCoinRnd_def
      gameLoop_def driveCar_def turnCar_def stopCar_def finishTick_def Let_def noEvents_def
      coinStep_def checkCollision_def scoreUpdater_def sqrt_less_44)


section \<open>The claims\<close>

text \<open>
  C1. The milestone callback is scheduled exactly on the tick in which the score gets from
  below 300 to 300 or more, also when the pickups of one tick jump over 300, and on no other
  tick: a tick from any state whose latch agrees with its score schedules one callback if the
  score crosses 300 in it and none otherwise, and keeps the latch in agreement. In every run
  from a reset (which clears the latch) each tick schedules the callback if and only if the
  score crosses 300 in that tick, and the whole run schedules it once if the final score is
  at least 300 and never otherwise.
\<close>

theorem milestone_callback_once:
  "(roadPath s \<noteq> [] \<and> actionTriggered s = (300 \<le> score s) \<longrightarrow>
      (\<exists>s' ev. gameLoop rnd p k s = Inr (s', ev)
         \<and> actionTriggered s' = (300 \<le> score s')
         \<and> callbacks ev = (if score s < 300 \<and> 300 \<le> score s' then 1 else 0)))
   \<and> (\<exists>sf tr. run rnd inputs (handleReset rnd s0) = Inr (sf, tr)
      \<and> length tr = length inputs
      \<and> \<not> actionTriggered (handleReset rnd s0)
      \<and> (\<forall>i < length tr.
            callbacks (snd (tr ! i)) =
              (if score ((handleReset rnd s0 # map fst tr) ! i) < 300
                  \<and> 300 \<le> score (fst (tr ! i))
               then 1 else 0))
      \<and> sum_list (map (\<lambda>x. callbacks (snd x)) tr) = (if 300 \<le> score sf then 1 else 0))"
proof -
  have inv: "gameInv (handleReset rnd s0)" by (rule handleReset_inv)
  have z: "score (handleReset rnd s0) = 0" "\<not> actionTriggered (handleReset rnd s0)"
    by (simp_all add: handleReset_def resetGame_props)
  from run_steps [OF inv, of rnd inputs] obtain sf tr where
    r: "run rnd inputs (handleReset rnd s0) = Inr (sf, tr)" "length tr = length inputs"
    by blast
  from run_callbacks_sum [OF inv, of rnd inputs] r(1) z(1)
  have s: "sum_list (map (\<lambda>x. callbacks (snd x)) tr) = (if 300 \<le> score sf then 1 else 0)"
    by auto
  from run_tick [OF inv r(1)] r s z(2) gameLoop_latch [of s rnd p k] show ?thesis by blast
qed

theorem milestone_callback_once_witness:
  "roadPath nearMilestone \<noteq> []
   \<and> actionTriggered nearMilestone = (300 \<le> score nearMilestone)
   \<and> (\<exists>s' ev. gameLoop (\<lambda>n. 0) False {} nearMilestone = Inr (s', ev)
         \<and> score nearMilestone = 290 \<and> score s' = 310 \<and> actionTriggered s'
         \<and> callbacks ev = 1)
   \<and> (\<exists>sf tr. run (\<lambda>n. 0) [(False, {})] (handleReset (\<lambda>n. 0) initialState) = Inr (sf, tr)
         \<and> 0 < length tr \<and> callbacks (snd (tr ! 0)) = 0)"
proof -
  have h: "roadPath nearMilestone \<noteq> []"
    "actionTriggered nearMilestone = (300 \<le> score nearMilestone)"
    by (simp_all add: nearMilestone_def)
  from milestone_callback_once
         [of nearMilestone "\<lambda>n. 0" False "{}" "[(False, {})]" initialState] h
  obtain s' ev sf tr where
    a: "gameLoop (\<lambda>n. 0) False {} nearMilestone = Inr (s', ev)"
      "actionTriggered s' = (300 \<le> score s')"
      "callbacks ev = (if score nearMilestone < 300 \<and> 300 \<le> score s' then 1 else 0)"
    and b: "run (\<lambda>n. 0) [(False, {})] (handleReset (\<lambda>n. 0) initialState) = Inr (sf, tr)"
      "\<forall>i < length tr.
            callbacks (snd (tr ! i)) =
              (if score ((handleReset (\<lambda>n. 0) initialState # map fst tr) ! i) < 300
                  \<and> 300 \<le> score (fst (tr ! i))
               then 1 else 0)"
    by blast
  have "score s' = 310" "score nearMilestone = 290"
    using a(1) unfolding gameLoop_nearMilestone by (auto simp add: nearMilestone_def)
  then have "score nearMilestone = 290 \<and> score s' = 310 \<and> actionTriggered s' \<and> callbacks ev = 1"
    using a(2,3) by simp
  moreover have "tr = [(handleReset (\<lambda>n. 0) initialState, noEvents)]"
    using b(1) unfolding run_idle_tick by auto
  then have "0 < length tr \<and> callbacks (snd (tr ! 0)) = 0"
    by (simp add: noEvents_def)
  ultimately show ?thesis using h a(1) b(1) by blast
qed

text \<open>
  C2 (as stated, refuted at the border). The claim makes the vehicle off the path exactly
  when the minimal distance exceeds 180. At a minimal distance of exactly 180 the code reports
  the car as not on the road, while the minimum does not exceed 180.
\<close>

theorem off_path_test_min_distance_counterexample:
  "\<not> isCarOnRoad borderCar straightRoad \<and> \<not> spec_offPath borderCar straightRoad"
  by (simp add: isCarOnRoad_def minDistance_Infinity straightRoad_def [THEN arg_cong, of length]
      spec_offPath_def spec_minDistance_border)

text \<open>
  C2 (amended). For every car and every path with at least 2 points, the distance computed
  for each pair of consecutive points is the clamped-projection distance, \<open>minDistance\<close> is
  the minimum of these over all segments, and the car is off the road exactly when this
  minimum is at least 180 (not below \<open>ROAD_WIDTH / 2 - 20\<close>).
\<close>

theorem off_path_test_min_distance:
  "2 \<le> length path \<Longrightarrow>
     (\<forall>i. i + 1 < length path \<longrightarrow>
        distanceToSegment c (path ! i) (path ! (i + 1))
          = Some (spec_segmentDistance c (path ! i) (path ! (i + 1))))
     \<and> minDistance c path Infinity = Dist (spec_minDistance c path)
     \<and> (\<not> isCarOnRoad c path \<longleftrightarrow> spec_minDistance c path \<ge> ROAD_WIDTH / 2 - 20)"
  by (auto simp add: distanceToSegment_spec minDistance_Infinity isCarOnRoad_def)

theorem off_path_test_min_distance_witness:
  "2 \<le> length straightRoad
   \<and> distanceToSegment borderCar (straightRoad ! 0) (straightRoad ! 1) = Some 180
   \<and> minDistance borderCar straightRoad Infinity = Dist 180
   \<and> \<not> isCarOnRoad borderCar straightRoad"
proof -
  have l: "2 \<le> length straightRoad" by (simp add: straightRoad_def)
  have s: "spec_segmentDistance borderCar (straightRoad ! 0) (straightRoad ! 1) = 180"
    by (simp add: spec_segmentDistance_def borderCar_def straightRoad_def sqrt_180)
  from off_path_test_min_distance [OF l, of borderCar] l s show ?thesis
    by (simp add: spec_minDistance_border straightRoad_def [THEN arg_cong, of length])
qed

text \<open>
  C3. In a tick that is neither paused nor over, the checks for a lost game call
  \<open>setIsGameOver(true)\<close> exactly when the space key is held and the car (after its move) is
  not on the road, or the x coordinate of the car is below 0 or above 800. The flag
  \<open>isGameOver\<close> is set by these two checks and by the maximal score only, so that below the
  maximal score the game is over after the tick exactly in these two cases. Without the
  space key the car keeps its x coordinate and the result does not depend on the off-road
  test.
\<close>

theorem lost_on_same_tick:
  assumes "\<not> p" "\<not> isGameOver s" "roadPath s \<noteq> []"
  shows "\<exists>s' ev. gameLoop rnd p k s = Inr (s', ev)
      \<and> ((offRoad ev \<or> offScreen ev) \<longleftrightarrow>
           ('' '' \<in> k \<and> \<not> isCarOnRoad (car s') (roadPath s'))
            \<or> car_x (car s') < 0 \<or> car_x (car s') > CANVAS_WIDTH)
      \<and> (isGameOver s' \<longleftrightarrow> offRoad ev \<or> offScreen ev \<or> maxScore ev)
      \<and> (maxScore ev \<longleftrightarrow> score s < score s' \<and> MAX_SCORE \<le> score s')
      \<and> (score s' < MAX_SCORE \<longrightarrow>
           (isGameOver s' \<longleftrightarrow>
             ('' '' \<in> k \<and> \<not> isCarOnRoad (car s') (roadPath s'))
              \<or> car_x (car s') < 0 \<or> car_x (car s') > CANVAS_WIDTH))
      \<and> ('' '' \<notin> k \<longrightarrow>
           car_x (car s') = car_x (car s)
           \<and> (offRoad ev \<or> offScreen ev) = (car_x (car s) < 0 \<or> car_x (car s) > CANVAS_WIDTH))"
proof -
  from gameLoop_running [OF assms, of rnd k] obtain s2 where
    d: "driveCar rnd k s = Inr s2" and sc: "score s2 = score s"
    and g: "gameLoop rnd p k s = Inr (finishTick ('' '' \<in> k) s2)"
    by blast
  let ?f = "finishTick ('' '' \<in> k) s2"
  have x: "'' '' \<notin> k \<longrightarrow> car_x (car s2) = car_x (car s)"
    using d by (auto simp add: driveCar_still turnCar_simps stopCar_simps)
  have "gameLoop rnd p k s = Inr (fst ?f, snd ?f)" using g by simp
  then show ?thesis
    using x sc
    by (intro exI [of _ "fst ?f"] exI [of _ "snd ?f"])
       (auto simp add: finishTick_events finishTick_frame)
qed

theorem lost_on_same_tick_witness:
  "\<not> False \<and> \<not> isGameOver roadsideState \<and> roadPath roadsideState \<noteq> []
   \<and> \<not> isGameOver offScreenState \<and> roadPath offScreenState \<noteq> []
   \<and> (\<exists>s' ev. gameLoop (\<lambda>n. 0) False {'' ''} roadsideState = Inr (s', ev)
         \<and> '' '' \<in> {'' ''} \<and> \<not> isCarOnRoad (car s') (roadPath s')
         \<and> offRoad ev \<and> isGameOver s')
   \<and> (\<exists>s' ev. gameLoop (\<lambda>n. 0) False {} roadsideState = Inr (s', ev)
         \<and> \<not> offRoad ev \<and> \<not> offScreen ev \<and> \<not> isGameOver s')
   \<and> (\<exists>s' ev. gameLoop (\<lambda>n. 0) False {} offScreenState = Inr (s', ev)
         \<and> car_x (car s') > CANVAS_WIDTH \<and> offScreen ev \<and> isGameOver s')"
proof -
  have h: "\<not> False" "\<not> isGameOver roadsideState" "roadPath roadsideState \<noteq> []"
    by (simp_all add: roadsideState_def longRoad_def)
  have h': "\<not> isGameOver offScreenState" "roadPath offScreenState \<noteq> []"
    by (simp_all add: offScreenState_def longRoad_def)
  from lost_on_same_tick [OF h, of "\<lambda>n. 0" "{'' ''}"] obtain s' ev where
    a: "gameLoop (\<lambda>n. 0) False {'' ''} roadsideState = Inr (s', ev)"
    and b: "(offRoad ev \<or> offScreen ev) \<longleftrightarrow>
           ('' '' \<in> {'' ''} \<and> \<not> isCarOnRoad (car s') (roadPath s'))
            \<or> car_x (car s') < 0 \<or> car_x (car s') > CANVAS_WIDTH"
    and c: "isGameOver s' \<longleftrightarrow> offRoad ev \<or> offScreen ev \<or> maxScore ev"
    by blast
  have e: "offRoad ev" "\<not> offScreen ev" "car_x (car s') = 586"
    using a unfolding gameLoop_roadside by auto
  then have 1: "'' '' \<in> {'' ''} \<and> \<not> isCarOnRoad (car s') (roadPath s') \<and> offRoad ev
                \<and> isGameOver s'"
    using b c by auto
  from lost_on_same_tick [OF h, of "\<lambda>n. 0" "{}"] obtain t' ev' where
    a': "gameLoop (\<lambda>n. 0) False {} roadsideState = Inr (t', ev')"
    and d: "'' '' \<notin> {} \<longrightarrow>
           car_x (car t') = car_x (car roadsideState)
           \<and> (offRoad ev' \<or> offScreen ev') =
               (car_x (car roadsideState) < 0 \<or> car_x (car roadsideState) > CANVAS_WIDTH)"
    and c': "isGameOver t' \<longleftrightarrow> offRoad ev' \<or> offScreen ev' \<or> maxScore ev'"
    by blast
  have "\<not> maxScore ev'"
    using a' unfolding gameLoop_roadside_idle by (auto simp add: noEvents_def)
  then have 2: "\<not> offRoad ev' \<and> \<not> offScreen ev' \<and> \<not> isGameOver t'"
    using d c' by (simp add: roadsideState_def)
  from lost_on_same_tick [OF h(1) h', of "\<lambda>n. 0" "{}"] obtain u' ev'' where
    a'': "gameLoop (\<lambda>n. 0) False {} offScreenState = Inr (u', ev'')"
    and d'': "'' '' \<notin> {} \<longrightarrow>
           car_x (car u') = car_x (car offScreenState)
           \<and> (offRoad ev'' \<or> offScreen ev'') =
               (car_x (car offScreenState) < 0 \<or> car_x (car offScreenState) > CANVAS_WIDTH)"
    and c'': "isGameOver u' \<longleftrightarrow> offRoad ev'' \<or> offScreen ev'' \<or> maxScore ev''"
    by blast
  have "\<not> offRoad ev''"
    using a'' unfolding gameLoop_offScreen by auto
  then have 3: "car_x (car u') > CANVAS_WIDTH \<and> offScreen ev'' \<and> isGameOver u'"
    using d'' c'' by (simp add: offScreenState_def)
  from h h' a 1 a' 2 a'' 3 show ?thesis by blast
qed

text \<open>
  C4. A reset leaves the score 0 and every coin uncollected. In every run from a reset the
  score is ten times the number of collected coins, after every tick and at the end, and
  never decreases from one tick to the next. A tick that is paused or over changes nothing.
  Every other tick turns exactly those coins (old ones and the ones it spawns) to collected
  that were uncollected and are in contact with the car after its move, and adds 10 to the
  score for each of them. In the step of the coin loop an uncollected coin in contact with
  the car becomes collected and the score grows by 10, and an already collected coin and the
  score stay as they are, wherever the car is.
\<close>

theorem score_counts_collected_coins:
  "(\<exists>sf tr. run rnd inputs (handleReset rnd s0) = Inr (sf, tr)
      \<and> length tr = length inputs
      \<and> score (handleReset rnd s0) = 0
      \<and> list_all (\<lambda>c. \<not> collected c) (coins (handleReset rnd s0))
      \<and> score sf = 10 * int (length (filter collected (coins sf)))
      \<and> (\<forall>i < length tr.
            score (fst (tr ! i)) = 10 * int (length (filter collected (coins (fst (tr ! i)))))
            \<and> score ((handleReset rnd s0 # map fst tr) ! i) \<le> score (fst (tr ! i))
            \<and> (fst (inputs ! i) \<or> isGameOver ((handleReset rnd s0 # map fst tr) ! i)
                  \<longrightarrow> fst (tr ! i) = (handleReset rnd s0 # map fst tr) ! i)
            \<and> (\<not> fst (inputs ! i) \<and> \<not> isGameOver ((handleReset rnd s0 # map fst tr) ! i) \<longrightarrow>
                 (\<exists>newc. list_all (\<lambda>c. \<not> collected c) newc
                    \<and> coins (fst (tr ! i))
                        = map (pickUp (car (fst (tr ! i))) (cameraOffsetY (fst (tr ! i))))
                            (coins ((handleReset rnd s0 # map fst tr) ! i) @ newc)
                    \<and> score (fst (tr ! i))
                        = score ((handleReset rnd s0 # map fst tr) ! i)
                          + 10 * int (freshHits (car (fst (tr ! i))) (cameraOffsetY (fst (tr ! i)))
                                        (coins ((handleReset rnd s0 # map fst tr) ! i) @ newc))))))
   \<and> (collected coin \<longrightarrow> coinStep c cam coin u = (coin, u))
   \<and> (\<not> collected coin \<and> touches c cam coin \<longrightarrow>
        coinStep c cam coin u = (coin\<lparr>collected := True\<rparr>, scoreUpdater u)
        \<and> sc_score (scoreUpdater u) = sc_score u + 10)"
proof -
  let ?r = "handleReset rnd s0"
  have inv: "gameInv ?r" by (rule handleReset_inv)
  have z: "score ?r = 0" "list_all (\<lambda>c. \<not> collected c) (coins ?r)"
    by (simp_all add: handleReset_def resetGame_props)
  from run_steps [OF inv, of rnd inputs] obtain sf tr where
    r: "run rnd inputs ?r = Inr (sf, tr)" "gameInv sf" "length tr = length inputs"
    by blast
  have f: "score sf = 10 * int (length (filter collected (coins sf)))"
    using r(2) by (simp add: gameInv_def nCollected_def)
  have t: "\<forall>i < length tr.
            score (fst (tr ! i)) = 10 * int (length (filter collected (coins (fst (tr ! i)))))
            \<and> score ((?r # map fst tr) ! i) \<le> score (fst (tr ! i))
            \<and> (fst (inputs ! i) \<or> isGameOver ((?r # map fst tr) ! i)
                  \<longrightarrow> fst (tr ! i) = (?r # map fst tr) ! i)
            \<and> (\<not> fst (inputs ! i) \<and> \<not> isGameOver ((?r # map fst tr) ! i) \<longrightarrow>
                 (\<exists>newc. list_all (\<lambda>c. \<not> collected c) newc
                    \<and> coins (fst (tr ! i))
                        = map (pickUp (car (fst (tr ! i))) (cameraOffsetY (fst (tr ! i))))
                            (coins ((?r # map fst tr) ! i) @ newc)
                    \<and> score (fst (tr ! i))
                        = score ((?r # map fst tr) ! i)
                          + 10 * int (freshHits (car (fst (tr ! i))) (cameraOffsetY (fst (tr ! i)))
                                        (coins ((?r # map fst tr) ! i) @ newc))))"
  proof (intro allI impI)
    fix i assume i: "i < length tr"
    from run_tick [OF inv r(1) i]
    have "score (fst (tr ! i)) = 10 * int (length (filter collected (coins (fst (tr ! i)))))
            \<and> score ((?r # map fst tr) ! i) \<le> score (fst (tr ! i))"
      by (simp add: gameInv_def nCollected_def)
    with run_tick_pickUp [OF inv r(1) i]
    show "score (fst (tr ! i)) = 10 * int (length (filter collected (coins (fst (tr ! i)))))
            \<and> score ((?r # map fst tr) ! i) \<le> score (fst (tr ! i))
            \<and> (fst (inputs ! i) \<or> isGameOver ((?r # map fst tr) ! i)
                  \<longrightarrow> fst (tr ! i) = (?r # map fst tr) ! i)
            \<and> (\<not> fst (inputs ! i) \<and> \<not> isGameOver ((?r # map fst tr) ! i) \<longrightarrow>
                 (\<exists>newc. list_all (\<lambda>c. \<not> collected c) newc
                    \<and> coins (fst (tr ! i))
                        = map (pickUp (car (fst (tr ! i))) (cameraOffsetY (fst (tr ! i))))
                            (coins ((?r # map fst tr) ! i) @ newc)
                    \<and> score (fst (tr ! i))
                        = score ((?r # map fst tr) ! i)
                          + 10 * int (freshHits (car (fst (tr ! i))) (cameraOffsetY (fst (tr ! i)))
                                        (coins ((?r # map fst tr) ! i) @ newc))))"
      by blast
  qed
  have c1: "collected coin \<longrightarrow> coinStep c cam coin u = (coin, u)"
    by (simp add: coinStep_skip)
  have c2: "\<not> collected coin \<and> touches c cam coin \<longrightarrow>
        coinStep c cam coin u = (coin\<lparr>collected := True\<rparr>, scoreUpdater u)
        \<and> sc_score (scoreUpdater u) = sc_score u + 10"
    by (simp add: coinStep_hit scoreUpdater_score)
  from r(1,3) z f t c1 c2 show ?thesis by blast
qed

theorem score_counts_collected_coins_witness:
  "(\<exists>sf tr. run oneCoinRnd [(False, {}), (False, {}), (True, {})]
                 (handleReset oneCoinRnd initialState)
               = Inr (sf, tr)
      \<and> coins (handleReset oneCoinRnd initialState)
           = [\<lparr>coin_x = 368, coin_y = 510, collected = False\<rparr>]
      \<and> score (handleReset oneCoinRnd initialState) = 0
      \<and> length tr = 3
      \<and> coins (fst (tr ! 0)) = [\<lparr>coin_x = 368, coin_y = 510, collected = True\<rparr>]
      \<and> score (fst (tr ! 0)) = 10
      \<and> score (fst (tr ! 0))
           = score (handleReset oneCoinRnd initialState)
             + 10 * int (freshHits (car (fst (tr ! 0))) (cameraOffsetY (fst (tr ! 0)))
                           (coins (handleReset oneCoinRnd initialState)))
      \<and> coins (fst (tr ! 1)) = [\<lparr>coin_x = 368, coin_y = 510, collected = True\<rparr>]
      \<and> score (fst (tr ! 1)) = 10
      \<and> fst (tr ! 2) = fst (tr ! 1)
      \<and> score sf = 10)
   \<and> collected \<lparr>coin_x = 368, coin_y = 510, collected = True\<rparr>
   \<and> coinStep \<lparr>car_x = 400, car_y = 500, angle = - pi / 2, speed = 0\<rparr> 0
         \<lparr>coin_x = 368, coin_y = 510, collected = True\<rparr>
         \<lparr>sc_score = 10, sc_triggered = False, sc_callbacks = 0, sc_maxReached = False\<rparr>
       = (\<lparr>coin_x = 368, coin_y = 510, collected = True\<rparr>,
          \<lparr>sc_score = 10, sc_triggered = False, sc_callbacks = 0, sc_maxReached = False\<rparr>)
   \<and> \<not> collected \<lparr>coin_x = 368, coin_y = 510, collected = False\<rparr>
   \<and> touches \<lparr>car_x = 400, car_y = 500, angle = - pi / 2, speed = 0\<rparr> 0
         \<lparr>coin_x = 368, coin_y = 510, collected = False\<rparr>
   \<and> fst (coinStep \<lparr>car_x = 400, car_y = 500, angle = - pi / 2, speed = 0\<rparr> 0
         \<lparr>coin_x = 368, coin_y = 510, collected = False\<rparr>
         \<lparr>sc_score = 0, sc_triggered = False, sc_callbacks = 0, sc_maxReached = False\<rparr>)
       = \<lparr>coin_x = 368, coin_y = 510, collected = True\<rparr>
   \<and> sc_score (snd (coinStep \<lparr>car_x = 400, car_y = 500, angle = - pi / 2, speed = 0\<rparr> 0
         \<lparr>coin_x = 368, coin_y = 510, collected = False\<rparr>
         \<lparr>sc_score = 0, sc_triggered = False, sc_callbacks = 0, sc_maxReached = False\<rparr>))
       = 10"
proof -
  let ?car = "\<lparr>car_x = 400, car_y = 500, angle = - pi / 2, speed = 0\<rparr>"
  let ?u0 = "\<lparr>sc_score = 0, sc_triggered = False, sc_callbacks = 0, sc_maxReached = False\<rparr>"
  let ?u1 = "\<lparr>sc_score = 10, sc_triggered = False, sc_callbacks = 0, sc_maxReached = False\<rparr>"
  let ?new = "\<lparr>coin_x = 368, coin_y = 510, collected = False\<rparr>"
  let ?got = "\<lparr>coin_x = 368, coin_y = 510, collected = True\<rparr>"
  let ?r = "handleReset oneCoinRnd initialState"
  let ?in = "[(False, {}), (False, {}), (True, {})] :: (bool \<times> string set) list"
  have h: "\<not> collected ?new" "touches ?car 0 ?new" "collected ?got"
    by (simp_all add: touches_def culled_def checkCollision_def sqrt_less_44)
  note w = score_counts_collected_coins [of oneCoinRnd ?in initialState]
  from w [of ?got ?car 0 ?u1] h(3)
  have old: "coinStep ?car 0 ?got ?u1 = (?got, ?u1)" by blast
  from w [of ?new ?car 0 ?u0] h(1,2)
  have new: "coinStep ?car 0 ?new ?u0 = (?new\<lparr>collected := True\<rparr>, scoreUpdater ?u0)"
    "sc_score (scoreUpdater ?u0) = sc_score ?u0 + 10"
    by blast+
  from w [of ?got ?car 0 ?u1] obtain sf tr where
    r: "run oneCoinRnd ?in ?r = Inr (sf, tr)"
    and f: "score sf = 10 * int (length (filter collected (coins sf)))"
    and t: "\<forall>i < length tr.
              score (fst (tr ! i)) = 10 * int (length (filter collected (coins (fst (tr ! i)))))
              \<and> (fst (?in ! i) \<or> isGameOver ((?r # map fst tr) ! i)
                    \<longrightarrow> fst (tr ! i) = (?r # map fst tr) ! i)
              \<and> (\<not> fst (?in ! i) \<and> \<not> isGameOver ((?r # map fst tr) ! i) \<longrightarrow>
                   (\<exists>newc. list_all (\<lambda>c. \<not> collected c) newc
                      \<and> coins (fst (tr ! i))
                          = map (pickUp (car (fst (tr ! i))) (cameraOffsetY (fst (tr ! i))))
                              (coins ((?r # map fst tr) ! i) @ newc)
                      \<and> score (fst (tr ! i))
                          = score ((?r # map fst tr) ! i)
                            + 10 * int (freshHits (car (fst (tr ! i))) (cameraOffsetY (fst (tr ! i)))
                                          (coins ((?r # map fst tr) ! i) @ newc))))"
    by blast
  have e: "sf = ?r\<lparr>coins := [?got], score := 10\<rparr>"
    "tr = [(?r\<lparr>coins := [?got], score := 10\<rparr>, noEvents),
           (?r\<lparr>coins := [?got], score := 10\<rparr>, noEvents),
           (?r\<lparr>coins := [?got], score := 10\<rparr>, noEvents)]"
    using r unfolding run_oneCoin by auto
  have l: "length tr = 3" "coins (fst (tr ! 0)) = [?got]" "coins (fst (tr ! 1)) = [?got]"
    "coins sf = [?got]"
    by (simp_all add: e)
  have i: "0 < length tr" "1 < length tr" "2 < length tr" by (simp_all add: l(1))
  from t i have "score (fst (tr ! 0)) = 10 * int (length (filter collected (coins (fst (tr ! 0)))))"
    "score (fst (tr ! 1)) = 10 * int (length (filter collected (coins (fst (tr ! 1)))))"
    by blast+
  then have s: "score (fst (tr ! 0)) = 10" "score (fst (tr ! 1)) = 10"
    unfolding l(2,3) by simp_all
  have sf: "score sf = 10" using f unfolding l(4) by simp
  have "fst (?in ! 2)" by simp
  with t i(3) have "fst (tr ! 2) = (?r # map fst tr) ! 2" by blast
  then have p: "fst (tr ! 2) = fst (tr ! 1)" using i(2) by simp
  have "\<not> fst (?in ! 0) \<and> \<not> isGameOver ((?r # map fst tr) ! 0)"
    by (simp add: handleReset_oneCoin(5))
  with t i(1) obtain newc where
    n: "coins (fst (tr ! 0))
          = map (pickUp (car (fst (tr ! 0))) (cameraOffsetY (fst (tr ! 0)))) (coins ((?r # map fst tr) ! 0) @ newc)"
    "score (fst (tr ! 0))
          = score ((?r # map fst tr) ! 0)
            + 10 * int (freshHits (car (fst (tr ! 0))) (cameraOffsetY (fst (tr ! 0)))
                          (coins ((?r # map fst tr) ! 0) @ newc))"
    by blast
  from n(1) have "newc = []" unfolding l(2) by (simp add: handleReset_oneCoin(1))
  with n(2) have q: "score (fst (tr ! 0))
           = score ?r + 10 * int (freshHits (car (fst (tr ! 0))) (cameraOffsetY (fst (tr ! 0))) (coins ?r))"
    by simp
  have st: "fst (coinStep ?car 0 ?new ?u0) = ?got" "sc_score (snd (coinStep ?car 0 ?new ?u0)) = 10"
    using new by simp_all
  from r handleReset_oneCoin(1,4) l(1,2,3) s q p sf h old st show ?thesis by blast
qed

text \<open>
  C5. After \<open>initializeRoad\<close> and any number \<open>k\<close> of calls of \<open>extendRoad\<close>, for any random
  numbers, every point of the path has its x coordinate between 200 and 600.
\<close>

theorem road_points_within_canvas:
  "\<exists>s'. extendTimes rnd k (initializeRoad rnd s) = Inr s' \<and>
        (\<forall>p \<in> set (roadPath s'). 200 \<le> pt_x p \<and> pt_x p \<le> 600)"
proof -
  from initializeRoad_props [of rnd s]
  have "roadPath (initializeRoad rnd s) \<noteq> []" "list_all inRange (roadPath (initializeRoad rnd s))"
    by auto
  from extendTimes_inv [OF this, of rnd k] show ?thesis
    by (auto simp add: list_all_iff inRange_def)
qed

theorem road_points_within_canvas_witness:
  "\<exists>s'. extendTimes (\<lambda>n. 0) 1 (initializeRoad (\<lambda>n. 0) initialState) = Inr s' \<and>
        \<lparr>pt_x = 200, pt_y = - 600\<rparr> \<in> set (roadPath s') \<and>
        (200::real) \<le> pt_x \<lparr>pt_x = 200, pt_y = - 600\<rparr> \<and>
        pt_x \<lparr>pt_x = 200, pt_y = - 600\<rparr> \<le> (600::real)"
proof -
  from road_points_within_canvas [of "\<lambda>n. 0" 1 initialState] obtain s' where
    s': "extendTimes (\<lambda>n. 0) 1 (initializeRoad (\<lambda>n. 0) initialState) = Inr s'"
    and b: "\<forall>p \<in> set (roadPath s'). 200 \<le> pt_x p \<and> pt_x p \<le> 600"
    by blast
  have m: "\<lparr>pt_x = 200, pt_y = - 600\<rparr> \<in> set (roadPath s')"
    using s' by (auto simp add: extendRoad_def initializeRoad_def initialState_def upt15 upt5
        roadDirection_def keepInBounds_def)
  from b m s' show ?thesis by blast
qed




text \<open>
  C7. In every state that a run from a reset reaches, if the top of the road is within the
  threshold (its screen y is above -200), then \<open>extendRoad\<close> returns and moves the top of the
  road up by 300, beyond the threshold again. Whenever \<open>extendRoad\<close> returns, the path
  has 5 more points than before, hence at least 2.
\<close>

theorem extension_restores_horizon:
  "(run rnd inputs (handleReset rnd s0) = Inr (s, tr) \<and> - ROAD_EXTEND_THRESHOLD < topOfRoad s
      \<longrightarrow> (\<exists>s'. extendRoad rnd s = Inr s'
             \<and> topOfRoad s' = topOfRoad s - 300
             \<and> topOfRoad s' \<le> - ROAD_EXTEND_THRESHOLD))
   \<and> (extendRoad rnd t = Inr t'
      \<longrightarrow> length (roadPath t') = length (roadPath t) + 5 \<and> 2 \<le> length (roadPath t'))"
proof -
  have a: "\<exists>s'. extendRoad rnd s = Inr s' \<and> topOfRoad s' = topOfRoad s - 300
             \<and> topOfRoad s' \<le> - ROAD_EXTEND_THRESHOLD"
    if r: "run rnd inputs (handleReset rnd s0) = Inr (s, tr)"
  proof -
    from run_steps [OF handleReset_inv, of rnd inputs rnd s0] r
    have inv: "gameInv s" by auto
    then have ne: "roadPath s \<noteq> []" and top: "topOfRoad s \<le> - 194"
      by (simp_all add: gameInv_def)
    from extendRoad_props [OF ne, of rnd] obtain s' where
      e: "extendRoad rnd s = Inr s'"
      and y: "pt_y (last (roadPath s')) = pt_y (last (roadPath s)) - 300"
      and c: "cameraOffsetY s' = cameraOffsetY s"
      by blast
    have "topOfRoad s' = topOfRoad s - 300" using y c by (simp add: topOfRoad_def)
    with e top show ?thesis by simp
  qed
  have b: "length (roadPath t') = length (roadPath t) + 5 \<and> 2 \<le> length (roadPath t')"
    if e: "extendRoad rnd t = Inr t'"
  proof -
    have ne: "roadPath t \<noteq> []" using e by (auto simp add: extendRoad_def split: if_splits)
    from extendRoad_props [OF ne, of rnd] e show ?thesis by auto
  qed
  from a b show ?thesis by blast
qed

theorem extension_restores_horizon_witness:
  "\<exists>s tr. run (\<lambda>n. 0) (replicate 51 (False, {'' ''})) (handleReset (\<lambda>n. 0) initialState)
             = Inr (s, tr)
      \<and> - ROAD_EXTEND_THRESHOLD < topOfRoad s \<and> topOfRoad s = - 194
      \<and> (\<exists>s'. extendRoad (\<lambda>n. 0) s = Inr s'
            \<and> topOfRoad s' = - 494 \<and> topOfRoad s' \<le> - ROAD_EXTEND_THRESHOLD
            \<and> length (roadPath s') = 21 \<and> 2 \<le> length (roadPath s'))"
proof -
  from drivingUp_run [OF handleReset_drivingUp, of 51 "\<lambda>n. 0"] obtain s tr where
    r: "run (\<lambda>n. 0) (replicate 51 (False, {'' ''})) (handleReset (\<lambda>n. 0) initialState)
          = Inr (s, tr)"
    and d: "drivingUp 51 s"
    by auto
  have t: "topOfRoad s = - 194" and l: "length (roadPath s) = 16"
    using d by (simp_all add: drivingUp_def topOfRoad_def leftRoad_def)
  then have h: "- ROAD_EXTEND_THRESHOLD < topOfRoad s" by simp
  from extension_restores_horizon
         [of "\<lambda>n. 0" "replicate 51 (False, {'' ''})" initialState s tr] r h
  obtain s' where
    e: "extendRoad (\<lambda>n. 0) s = Inr s'" "topOfRoad s' = topOfRoad s - 300"
      "topOfRoad s' \<le> - ROAD_EXTEND_THRESHOLD"
    by blast
  from extension_restores_horizon
         [of "\<lambda>n. 0" "replicate 51 (False, {'' ''})" initialState s tr s s'] e(1)
  have "length (roadPath s') = length (roadPath s) + 5 \<and> 2 \<le> length (roadPath s')"
    by blast
  with r h t l e show ?thesis by auto
qed

text \<open>
  C8. The distance computation never executes a division by zero (its result is never
  \<open>None\<close>), and for a segment of two coincident points it returns the distance from the car
  to that point.
\<close>

theorem segment_distance_guards_zero_length:
  "(\<exists>d. distanceToSegment c p1 p2 = Some d)
   \<and> distanceToSegment c p p =
       Some (sqrt ((car_x c - pt_x p) * (car_x c - pt_x p)
                   + (car_y c - pt_y p) * (car_y c - pt_y p)))"
  by (simp add: distanceToSegment_total distanceToSegment_degenerate)

text \<open>
  C9. \<open>extendRoad\<close> throws on an empty path and only there. \<open>initializeRoad\<close> always leaves 16
  points, so \<open>extendRoad\<close> returns after the initialization and any number of extensions, and
  on the last state of every run from a reset.
\<close>

theorem extendRoad_total_after_init:
  "(roadPath s = [] \<longrightarrow> extendRoad rnd s = Inl TypeError)
   \<and> (roadPath s \<noteq> [] \<longrightarrow> (\<exists>s'. extendRoad rnd s = Inr s'))
   \<and> length (roadPath (initializeRoad rnd s)) = 16
   \<and> (\<exists>s1 s2. extendTimes rnd k (initializeRoad rnd s) = Inr s1 \<and> extendRoad rnd s1 = Inr s2)
   \<and> (\<exists>sf tr s2. run rnd inputs (handleReset rnd s) = Inr (sf, tr) \<and> extendRoad rnd sf = Inr s2)"
proof -
  have a: "roadPath s = [] \<longrightarrow> extendRoad rnd s = Inl TypeError"
    by (simp add: extendRoad_empty)
  have b: "roadPath s \<noteq> [] \<longrightarrow> (\<exists>s'. extendRoad rnd s = Inr s')"
    using extendRoad_props [of s rnd] by blast
  have c: "length (roadPath (initializeRoad rnd s)) = 16"
    by (simp add: initializeRoad_props)
  then have ne: "roadPath (initializeRoad rnd s) \<noteq> []" by auto
  have ir: "list_all inRange (roadPath (initializeRoad rnd s))"
    by (simp add: initializeRoad_props)
  from extendTimes_inv [OF ne ir, of rnd k] obtain s1 where
    s1: "extendTimes rnd k (initializeRoad rnd s) = Inr s1" "roadPath s1 \<noteq> []"
    by blast
  from extendRoad_props [OF s1(2), of rnd] s1(1)
  have d: "\<exists>s1 s2. extendTimes rnd k (initializeRoad rnd s) = Inr s1 \<and> extendRoad rnd s1 = Inr s2"
    by blast
  from run_steps [OF handleReset_inv, of rnd inputs rnd s] obtain sf tr where
    r: "run rnd inputs (handleReset rnd s) = Inr (sf, tr)" "gameInv sf"
    by blast
  then have "roadPath sf \<noteq> []" by (simp add: gameInv_def)
  from extendRoad_props [OF this, of rnd] r(1)
  have e: "\<exists>sf tr s2. run rnd inputs (handleReset rnd s) = Inr (sf, tr) \<and> extendRoad rnd sf = Inr s2"
    by blast
  from a b c d e show ?thesis by blast
qed

theorem extendRoad_total_after_init_witness:
  "roadPath initialState = [] \<and> extendRoad (\<lambda>n. 0) initialState = Inl TypeError
   \<and> roadPath (handleReset (\<lambda>n. 0) initialState) \<noteq> []
   \<and> (\<exists>s'. extendRoad (\<lambda>n. 0) (handleReset (\<lambda>n. 0) initialState) = Inr s')"
proof -
  have a: "roadPath initialState = []" by (simp add: initialState_def)
  have b: "roadPath (handleReset (\<lambda>n. 0) initialState) \<noteq> []"
    by (simp add: handleReset_def resetGame_def initializeCoins_def initializeRoad_def
      initialState_def upt15 upt1_15 roadDirection_def keepInBounds_def)
  from extendRoad_total_after_init [of initialState "\<lambda>n. 0" 0 "[]"] a
  have "extendRoad (\<lambda>n. 0) initialState = Inl TypeError" by blast
  moreover from extendRoad_total_after_init [of "handleReset (\<lambda>n. 0) initialState" "\<lambda>n. 0" 0 "[]"] b
  have "\<exists>s'. extendRoad (\<lambda>n. 0) (handleReset (\<lambda>n. 0) initialState) = Inr s'" by blast
  ultimately show ?thesis using a b by blast
qed

text \<open>
  C10. The step of the coin loop leaves a coin whose screen y (\<open>coin_y + cameraOffsetY\<close>) is
  below -50 or above 650 and the score state unchanged, whatever \<open>checkCollision\<close> would say.
  In every tick, every coin that was uncollected before and is culled under the camera offset of
  that tick is unchanged after it, a culled coin spawned in the tick is uncollected, and the
  score grows by 10 for each coin that became collected.
\<close>

theorem culled_coin_untouched:
  assumes "roadPath s \<noteq> []"
  shows "(culled cam coin \<longrightarrow> coinStep c cam coin u = (coin, u))
   \<and> (\<exists>s' ev. gameLoop rnd p k s = Inr (s', ev)
        \<and> length (coins s) \<le> length (coins s')
        \<and> score s' = score s + 10 * (nCollected (coins s') - nCollected (coins s))
        \<and> (\<forall>i < length (coins s).
              \<not> collected (coins s ! i) \<and> culled (cameraOffsetY s') (coins s ! i)
                \<longrightarrow> coins s' ! i = coins s ! i)
        \<and> (\<forall>i < length (coins s').
              culled (cameraOffsetY s') (coins s' ! i) \<and> length (coins s) \<le> i
                \<longrightarrow> \<not> collected (coins s' ! i)))"
proof (cases "p \<or> isGameOver s")
  case True
  from gameLoop_halted [OF this, of rnd k] show ?thesis
    by (simp add: coinStep_skip)
next
  case False
  then have np: "\<not> p" "\<not> isGameOver s" by simp_all
  from gameLoop_running [OF np assms, of rnd k] obtain s2 newc where
    d: "driveCar rnd k s = Inr s2" and sc: "score s2 = score s"
    and cs: "coins s2 = coins s @ newc" and nw: "list_all (\<lambda>c. \<not> collected c) newc"
    and g: "gameLoop rnd p k s = Inr (finishTick ('' '' \<in> k) s2)"
    by blast
  let ?f = "finishTick ('' '' \<in> k) s2"
  let ?u = "\<lparr>sc_score = score s2, sc_triggered = actionTriggered s2,
             sc_callbacks = 0, sc_maxReached = False\<rparr>"
  have len: "length (coins (fst ?f)) = length (coins s2)"
    by (simp add: finishTick_frame coinsForEach_length)
  have cam: "cameraOffsetY (fst ?f) = cameraOffsetY s2"
    by (simp add: finishTick_frame)
  have nth: "\<And>i. i < length (coins s2) \<Longrightarrow> culled (cameraOffsetY s2) (coins s2 ! i)
               \<Longrightarrow> coins (fst ?f) ! i = coins s2 ! i"
    using coinsForEach_coin [of _ "coins s2" "car s2" "cameraOffsetY s2" ?u]
    by (simp add: finishTick_frame)
  have a: "\<forall>i < length (coins s).
              \<not> collected (coins s ! i) \<and> culled (cameraOffsetY (fst ?f)) (coins s ! i)
                \<longrightarrow> coins (fst ?f) ! i = coins s ! i"
    using nth cs by (auto simp add: cam nth_append)
  have b: "\<forall>i < length (coins (fst ?f)).
              culled (cameraOffsetY (fst ?f)) (coins (fst ?f) ! i) \<and> length (coins s) \<le> i
                \<longrightarrow> \<not> collected (coins (fst ?f) ! i)"
  proof (intro allI impI)
    fix i assume i: "i < length (coins (fst ?f))"
      and h: "culled (cameraOffsetY (fst ?f)) (coins (fst ?f) ! i) \<and> length (coins s) \<le> i"
    have i2: "i < length (coins s2)" using i len by simp
    from coinsForEach_coin [OF i2, of "car s2" "cameraOffsetY s2" ?u]
    have "coin_y (coins (fst ?f) ! i) = coin_y (coins s2 ! i)"
      by (simp add: finishTick_frame)
    then have "culled (cameraOffsetY s2) (coins s2 ! i)"
      using h by (simp add: culled_def cam)
    from nth [OF i2 this] have e: "coins (fst ?f) ! i = coins s2 ! i" .
    have "coins s2 ! i = newc ! (i - length (coins s))"
      using h cs by (simp add: nth_append)
    moreover have "i - length (coins s) < length newc"
      using i2 h cs by auto
    ultimately show "\<not> collected (coins (fst ?f) ! i)"
      using nw e by (simp add: list_all_length)
  qed
  have s: "score (fst ?f) = score s + 10 * (nCollected (coins (fst ?f)) - nCollected (coins s))"
    using finishTick_score(1) [of "'' '' \<in> k" s2] sc cs nw
    by (simp add: nCollected_append)
  have l: "length (coins s) \<le> length (coins (fst ?f))"
    using len cs by simp
  have "gameLoop rnd p k s = Inr (fst ?f, snd ?f)" using g by simp
  with a b s l have "\<exists>s' ev. gameLoop rnd p k s = Inr (s', ev)
        \<and> length (coins s) \<le> length (coins s')
        \<and> score s' = score s + 10 * (nCollected (coins s') - nCollected (coins s))
        \<and> (\<forall>i < length (coins s).
              \<not> collected (coins s ! i) \<and> culled (cameraOffsetY s') (coins s ! i)
                \<longrightarrow> coins s' ! i = coins s ! i)
        \<and> (\<forall>i < length (coins s').
              culled (cameraOffsetY s') (coins s' ! i) \<and> length (coins s) \<le> i
                \<longrightarrow> \<not> collected (coins s' ! i))"
    by blast
  then show ?thesis by (simp add: coinStep_skip)
qed

theorem culled_coin_untouched_witness:
  "roadPath belowFrameState \<noteq> []
   \<and> culled 0 \<lparr>coin_x = 400, coin_y = 700, collected = False\<rparr>
   \<and> checkCollision (car belowFrameState) 400 (700 + 0)
   \<and> coinStep (car belowFrameState) 0 \<lparr>coin_x = 400, coin_y = 700, collected = False\<rparr>
         \<lparr>sc_score = 0, sc_triggered = False, sc_callbacks = 0, sc_maxReached = False\<rparr>
       = (\<lparr>coin_x = 400, coin_y = 700, collected = False\<rparr>,
          \<lparr>sc_score = 0, sc_triggered = False, sc_callbacks = 0, sc_maxReached = False\<rparr>)
   \<and> (\<exists>s' ev. gameLoop (\<lambda>n. 0) False {} belowFrameState = Inr (s', ev)
         \<and> (0::nat) < length (coins belowFrameState)
         \<and> \<not> collected (coins belowFrameState ! 0)
         \<and> culled (cameraOffsetY s') (coins belowFrameState ! 0)
         \<and> coins s' ! 0 = coins belowFrameState ! 0 \<and> score s' = score belowFrameState)"
proof -
  have h: "roadPath belowFrameState \<noteq> []"
    by (simp add: belowFrameState_def longRoad_def)
  have k: "culled 0 \<lparr>coin_x = 400, coin_y = 700, collected = False\<rparr>"
    "checkCollision (car belowFrameState) 400 (700 + 0)"
    by (simp_all add: culled_def checkCollision_def belowFrameState_def)
  from culled_coin_untouched
         [OF h, of 0 "\<lparr>coin_x = 400, coin_y = 700, collected = False\<rparr>" "car belowFrameState"
            "\<lparr>sc_score = 0, sc_triggered = False, sc_callbacks = 0, sc_maxReached = False\<rparr>"
            "\<lambda>n. 0" False "{}"] k(1)
  obtain s' ev where
    a: "gameLoop (\<lambda>n. 0) False {} belowFrameState = Inr (s', ev)"
    and b: "\<forall>i < length (coins belowFrameState).
              \<not> collected (coins belowFrameState ! i)
               \<and> culled (cameraOffsetY s') (coins belowFrameState ! i)
                \<longrightarrow> coins s' ! i = coins belowFrameState ! i"
    and s: "score s' = score belowFrameState
               + 10 * (nCollected (coins s') - nCollected (coins belowFrameState))"
    and st: "coinStep (car belowFrameState) 0 \<lparr>coin_x = 400, coin_y = 700, collected = False\<rparr>
         \<lparr>sc_score = 0, sc_triggered = False, sc_callbacks = 0, sc_maxReached = False\<rparr>
       = (\<lparr>coin_x = 400, coin_y = 700, collected = False\<rparr>,
          \<lparr>sc_score = 0, sc_triggered = False, sc_callbacks = 0, sc_maxReached = False\<rparr>)"
    by blast
  have cam: "cameraOffsetY s' = 0" "length (coins s') = 1"
    using a unfolding gameLoop_belowFrame by (auto simp add: belowFrameState_def)
  have c: "(0::nat) < length (coins belowFrameState)"
    "\<not> collected (coins belowFrameState ! 0)"
    "culled (cameraOffsetY s') (coins belowFrameState ! 0)"
    using cam by (simp_all add: belowFrameState_def culled_def)
  with b have e: "coins s' ! 0 = coins belowFrameState ! 0" by blast
  then have "coins s' = coins belowFrameState"
    using cam by (cases "coins s'") (simp_all add: belowFrameState_def)
  then have "score s' = score belowFrameState" using s by simp
  with h k a c e st show ?thesis by blast
qed


end
